theory Spec2Isabelle
  imports Main "HOL-Library.Sublist" "HOL-Library.AList"
begin

section \<open>Python values used by libwyag.py\<close>

text \<open>
  A \<^verbatim>\<open>bytes\<close> value is a list of 8-bit characters. A \<^verbatim>\<open>str\<close> value is modelled by the
  same type, each character standing for one code point below 256; every \<^verbatim>\<open>str\<close> the
  modelled functions inspect character by character is ASCII at that point
  (after \<^verbatim>\<open>decode("ascii")\<close>, after the hash regular expression, or produced by
  \<^verbatim>\<open>hex\<close>). Python integers are \<open>int\<close>.
\<close>

type_synonym bytes = string

abbreviation SP :: char where "SP \<equiv> CHR 0x20"
abbreviation NL :: char where "NL \<equiv> CHR 0x0A"
abbreviation NUL :: char where "NUL \<equiv> CHR 0x00"

text \<open>
  Every exception the modelled code can raise is a constructor. The four
  \<^verbatim>\<open>raise Exception(...)\<close> sites carry the name of the failure kind they stand for:
  \<open>NameNotFound\<close> is \<^verbatim>\<open>"Not such reference {name}"\<close>, \<open>AmbiguousName\<close> is
  \<^verbatim>\<open>"Ambiguous reference {name}: Candidates are ..."\<close>, \<open>CorruptObject\<close> is
  \<^verbatim>\<open>"Malformed object {sha}: bad length"\<close>, \<open>UnsupportedType\<close> is
  \<^verbatim>\<open>"Unknown type ..."\<close> and \<open>NotADirectory\<close> is \<^verbatim>\<open>"Not a directory {path}"\<close>. The others
  are the built-in exceptions of the same name (\<open>OSError\<close> covers FileNotFoundError
  and IsADirectoryError; \<open>ZlibError\<close> is \<^verbatim>\<open>zlib.error\<close>).
\<close>

datatype error =
    AssertionError | IndexError | KeyError | ValueError | TypeError | AttributeError
  | OverflowError | UnicodeDecodeError | OSError | ZlibError | NotADirectory
  | NameNotFound string | AmbiguousName string "string list"
  | CorruptObject | UnsupportedType

subsection \<open>Indexing, slicing and searching\<close>

definition clamp_index :: "nat \<Rightarrow> int \<Rightarrow> nat" where
  \<comment> \<open>a slice bound: negative bounds count from the end, all bounds are clipped\<close>
  "clamp_index n i = (if i < 0 then nat (int n + i) else min (nat i) n)"

definition slice :: "'a list \<Rightarrow> int \<Rightarrow> int \<Rightarrow> 'a list" where
  \<comment> \<open>\<^verbatim>\<open>xs[a:b]\<close>\<close>
  "slice xs a b =
     take (clamp_index (length xs) b - clamp_index (length xs) a)
          (drop (clamp_index (length xs) a) xs)"

definition slice_from :: "'a list \<Rightarrow> int \<Rightarrow> 'a list" where
  \<comment> \<open>\<^verbatim>\<open>xs[a:]\<close>\<close>
  "slice_from xs a = drop (clamp_index (length xs) a) xs"

definition getitem :: "'a list \<Rightarrow> int \<Rightarrow> error + 'a" where
  \<comment> \<open>\<^verbatim>\<open>xs[i]\<close>, which raises out of range\<close>
  "getitem xs i =
     (if 0 \<le> i \<and> i < int (length xs) then Inr (xs ! nat i)
      else if i < 0 \<and> - int (length xs) \<le> i then Inr (xs ! nat (int (length xs) + i))
      else Inl IndexError)"

fun index_of :: "'a \<Rightarrow> 'a list \<Rightarrow> nat option" where
  "index_of c [] = None"
| "index_of c (x # xs) = (if x = c then Some 0 else map_option Suc (index_of c xs))"

definition find_byte :: "bytes \<Rightarrow> char \<Rightarrow> int \<Rightarrow> int" where
  \<comment> \<open>\<^verbatim>\<open>raw.find(c, start)\<close> for a one-byte needle: the first position at or after
      \<open>start\<close>, or \<open>-1\<close>\<close>
  "find_byte raw c start =
     (let lo = clamp_index (length raw) start
      in case index_of c (drop lo raw) of None \<Rightarrow> - 1 | Some i \<Rightarrow> int (lo + i))"

fun replace_nlsp_nl :: "bytes \<Rightarrow> bytes" where
  \<comment> \<open>\<^verbatim>\<open>v.replace(b'\n ', b'\n')\<close>: occurrences are replaced left to right, without overlap\<close>
  "replace_nlsp_nl (a # b # xs) =
     (if a = NL \<and> b = SP then NL # replace_nlsp_nl xs else a # replace_nlsp_nl (b # xs))"
| "replace_nlsp_nl xs = xs"

definition replace_nl_nlsp :: "bytes \<Rightarrow> bytes" where
  \<comment> \<open>\<^verbatim>\<open>v.replace(b'\n', b'\n ')\<close>\<close>
  "replace_nl_nlsp v = concat (map (\<lambda>c. if c = NL then [NL, SP] else [c]) v)"

definition is_ascii :: "string \<Rightarrow> bool" where
  "is_ascii s = list_all (\<lambda>c. (of_char c :: nat) < 128) s"

definition decode_ascii :: "bytes \<Rightarrow> error + string" where
  \<comment> \<open>\<^verbatim>\<open>b.decode("ascii")\<close>\<close>
  "decode_ascii b = (if is_ascii b then Inr b else Inl UnicodeDecodeError)"

subsection \<open>Integers and their text forms\<close>

definition hexdigit :: "nat \<Rightarrow> char" where
  "hexdigit d = ''0123456789abcdef'' ! d"

fun hex_str :: "nat \<Rightarrow> string" where
  "hex_str n = (if n < 16 then [hexdigit n] else hex_str (n div 16) @ [hexdigit (n mod 16)])"

declare hex_str.simps [simp del]

definition py_hex :: "int \<Rightarrow> string" where
  \<comment> \<open>\<^verbatim>\<open>hex(n)\<close>: no leading zeros, \<^verbatim>\<open>0x0\<close> for zero\<close>
  "py_hex n = (if n < 0 then ''-0x'' @ hex_str (nat (- n)) else ''0x'' @ hex_str (nat n))"

definition from_bytes :: "bytes \<Rightarrow> int" where
  \<comment> \<open>\<^verbatim>\<open>int.from_bytes(b, "big")\<close>\<close>
  "from_bytes b = int (foldl (\<lambda>acc c. acc * 256 + of_char c) (0::nat) b)"

fun be_bytes :: "nat \<Rightarrow> nat \<Rightarrow> bytes" where
  "be_bytes 0 n = []"
| "be_bytes (Suc k) n = be_bytes k (n div 256) @ [char_of (n mod 256)]"

definition to_bytes :: "int \<Rightarrow> nat \<Rightarrow> error + bytes" where
  \<comment> \<open>\<^verbatim>\<open>n.to_bytes(len, byteorder="big")\<close>, unsigned\<close>
  "to_bytes n len =
     (if n < 0 \<or> 256 ^ len \<le> n then Inl OverflowError else Inr (be_bytes len (nat n)))"

definition is_int_space :: "char \<Rightarrow> bool" where
  \<comment> \<open>the characters \<^verbatim>\<open>int()\<close> strips from both ends of a \<^verbatim>\<open>str\<close> with code points below 256\<close>
  "is_int_space c = ((of_char c :: nat) \<in> {9, 10, 11, 12, 13, 32, 133, 160})"

definition digit_val :: "char \<Rightarrow> nat option" where
  "digit_val c =
     (let n = (of_char c :: nat)
      in if 48 \<le> n \<and> n \<le> 57 then Some (n - 48)
         else if 97 \<le> n \<and> n \<le> 122 then Some (n - 87)
         else if 65 \<le> n \<and> n \<le> 90 then Some (n - 55)
         else None)"

definition is_digit :: "nat \<Rightarrow> char \<Rightarrow> bool" where
  "is_digit base c = (case digit_val c of None \<Rightarrow> False | Some d \<Rightarrow> d < base)"

fun digits_ok :: "nat \<Rightarrow> bool \<Rightarrow> string \<Rightarrow> bool" where
  \<comment> \<open>at least one digit; an underscore only between two digits. The flag says that the
      previous character was a digit.\<close>
  "digits_ok base prev [] = prev"
| "digits_ok base prev (c # cs) =
     (if c = CHR ''_'' then prev \<and> digits_ok base False cs
      else is_digit base c \<and> digits_ok base True cs)"

definition digits_value :: "nat \<Rightarrow> string \<Rightarrow> nat" where
  "digits_value base s =
     foldl (\<lambda>acc c. case digit_val c of None \<Rightarrow> acc | Some d \<Rightarrow> acc * base + d) 0 s"

definition int_max_str_digits :: nat where
  \<comment> \<open>CPython's default limit on the digits of a decimal literal (3.11 and later)\<close>
  "int_max_str_digits = 4300"

definition py_int :: "string \<Rightarrow> nat \<Rightarrow> error + int" where
  \<comment> \<open>\<^verbatim>\<open>int(s, base)\<close> for base 10 and base 16: surrounding whitespace, one optional sign,
      for base 16 an optional \<^verbatim>\<open>0x\<close> (which one underscore may follow), then the digits\<close>
  "py_int s base =
     (let t = rev (dropWhile is_int_space (rev (dropWhile is_int_space s)));
          neg = (t \<noteq> [] \<and> hd t = CHR ''-'');
          u = (if t \<noteq> [] \<and> (hd t = CHR ''-'' \<or> hd t = CHR ''+'') then tl t else t);
          v = (if base = 16 \<and> (prefix ''0x'' u \<or> prefix ''0X'' u)
               then (let w = drop 2 u in if prefix ''_'' w then tl w else w)
               else u)
      in if \<not> digits_ok base False v then Inl ValueError
         else if base = 10 \<and> int_max_str_digits < length (filter (\<lambda>c. c \<noteq> CHR ''_'') v)
           then Inl ValueError
         else Inr ((if neg then - 1 else 1) * int (digits_value base v)))"

section \<open>Tree entries\<close>

record GitTreeLeaf =
  mode :: bytes
  path :: bytes
  sha :: string

definition tree_parse_one :: "bytes \<Rightarrow> int \<Rightarrow> error + (int \<times> GitTreeLeaf)" where
  "tree_parse_one raw start =
     (let x = find_byte raw SP start
      in if \<not> (x - start = 5 \<or> x - start = 6) then Inl AssertionError
         else
           let mode = slice raw start x;
               y = find_byte raw NUL x;
               path = slice raw (x + 1) y;
               sha = drop 2 (py_hex (from_bytes (slice raw (y + 1) (y + 20 + 1))))
           in Inr (y + 20 + 1, \<lparr>mode = mode, path = path, sha = sha\<rparr>))"

partial_function (option) tree_parse_loop ::
  "bytes \<Rightarrow> int \<Rightarrow> GitTreeLeaf list \<Rightarrow> (error + GitTreeLeaf list) option" where
  \<comment> \<open>the \<^verbatim>\<open>while pos < max\<close> loop of \<^verbatim>\<open>tree_parse\<close>; \<open>None\<close> is a loop that never ends\<close>
  "tree_parse_loop raw pos ret =
     (if pos < int (length raw)
      then (case tree_parse_one raw pos of
              Inl e \<Rightarrow> Some (Inl e)
            | Inr (pos', data) \<Rightarrow> tree_parse_loop raw pos' (ret @ [data]))
      else Some (Inr ret))"

definition tree_parse :: "bytes \<Rightarrow> (error + GitTreeLeaf list) option" where
  "tree_parse raw = tree_parse_loop raw 0 []"

fun tree_serializer_loop :: "GitTreeLeaf list \<Rightarrow> bytes \<Rightarrow> error + bytes" where
  "tree_serializer_loop [] ret = Inr ret"
| "tree_serializer_loop (i # rest) ret =
     (case py_int (sha i) 16 of
        Inl e \<Rightarrow> Inl e
      | Inr n \<Rightarrow>
          (case to_bytes n 20 of
             Inl e \<Rightarrow> Inl e
           | Inr h \<Rightarrow> tree_serializer_loop rest (ret @ mode i @ [SP] @ path i @ [NUL] @ h)))"

definition tree_serializer :: "GitTreeLeaf list \<Rightarrow> error + bytes" where
  \<comment> \<open>\<^verbatim>\<open>tree_serializer(obj)\<close> on \<^verbatim>\<open>obj.items\<close>\<close>
  "tree_serializer items = tree_serializer_loop items []"

text \<open>
  The wire form of one tree entry in the specification's words:
  \<^verbatim>\<open>mode SP name NUL rawhash\<close>, with a mode of five or six bytes that holds no space, a
  name without \<^verbatim>\<open>NUL\<close>, and a raw hash of exactly twenty bytes.
\<close>

definition spec_tree_entry :: "bytes \<times> bytes \<times> bytes \<Rightarrow> bytes" where
  "spec_tree_entry e = (case e of (m, n, h) \<Rightarrow> m @ [SP] @ n @ [NUL] @ h)"

definition spec_tree_entry_ok :: "bytes \<times> bytes \<times> bytes \<Rightarrow> bool" where
  "spec_tree_entry_ok e =
     (case e of (m, n, h) \<Rightarrow>
        (length m = 5 \<or> length m = 6) \<and> SP \<notin> set m \<and> NUL \<notin> set n \<and> length h = 20)"

definition leaf_of_entry :: "bytes \<times> bytes \<times> bytes \<Rightarrow> GitTreeLeaf" where
  "leaf_of_entry e =
     (case e of (m, n, h) \<Rightarrow> \<lparr>mode = m, path = n, sha = drop 2 (py_hex (from_bytes h))\<rparr>)"

section \<open>The kvlm codec\<close>

text \<open>
  The \<^verbatim>\<open>OrderedDict\<close> of a commit or tag is an association list in insertion order with
  distinct keys: \<open>map_of\<close> reads a key, \<open>AList.update\<close> assigns one (in place when the key
  is present, at the end otherwise). A value is a \<^verbatim>\<open>bytes\<close> or a list of them.

  Loops and recursions that need not end are partial functions into \<open>option\<close>: \<open>None\<close>
  is a run with no result. The interpreter's bound on the depth of recursion is not
  modelled; where CPython would abort a deep recursion with \<^verbatim>\<open>RecursionError\<close>, the model
  goes on.
\<close>

datatype kvval = Val bytes | Vals "bytes list"

type_synonym kvlm = "(bytes \<times> kvval) list"

partial_function (option) kvlm_value_end :: "bytes \<Rightarrow> int \<Rightarrow> (error + int) option" where
  \<comment> \<open>the \<^verbatim>\<open>while True\<close> loop of \<^verbatim>\<open>kvlm_parse\<close>, entered with the current \<^verbatim>\<open>end\<close>\<close>
  "kvlm_value_end raw end0 =
     (let end1 = find_byte raw NL (end0 + 1)
      in case getitem raw (end1 + 1) of
           Inl e \<Rightarrow> Some (Inl e)
         | Inr c \<Rightarrow> if c \<noteq> SP then Some (Inr end1) else kvlm_value_end raw end1)"

definition dct_add :: "kvlm \<Rightarrow> bytes \<Rightarrow> bytes \<Rightarrow> kvlm" where
  \<comment> \<open>the \<^verbatim>\<open>if key in dct\<close> statement of \<^verbatim>\<open>kvlm_parse\<close>\<close>
  "dct_add dct key v =
     (case map_of dct key of
        Some (Vals vs) \<Rightarrow> AList.update key (Vals (vs @ [v])) dct
      | Some (Val v0) \<Rightarrow> AList.update key (Vals [v0, v]) dct
      | None \<Rightarrow> AList.update key (Val v) dct)"

partial_function (option) kvlm_parse_from :: "bytes \<Rightarrow> int \<Rightarrow> kvlm \<Rightarrow> (error + kvlm) option" where
  \<comment> \<open>\<^verbatim>\<open>kvlm_parse(raw, start, dct)\<close>\<close>
  "kvlm_parse_from raw start dct =
     (let spc = find_byte raw SP start;
          nl = find_byte raw NL start
      in if spc < 0 \<or> nl < spc
         then (if nl \<noteq> start then Some (Inl AssertionError)
               else Some (Inr (AList.update [] (Val (slice_from raw (start + 1))) dct)))
         else
           (case kvlm_value_end raw start of
              None \<Rightarrow> None
            | Some (Inl e) \<Rightarrow> Some (Inl e)
            | Some (Inr end1) \<Rightarrow>
                kvlm_parse_from raw (end1 + 1)
                  (dct_add dct (slice raw start spc) (replace_nlsp_nl (slice raw (spc + 1) end1)))))"

definition kvlm_parse :: "bytes \<Rightarrow> (error + kvlm) option" where
  "kvlm_parse raw = kvlm_parse_from raw 0 []"

fun kvlm_serialize_keys :: "bytes list \<Rightarrow> kvlm \<Rightarrow> error + bytes option" where
  \<comment> \<open>the \<^verbatim>\<open>for k in kvlm.keys()\<close> loop, with its \<^verbatim>\<open>return ret\<close> inside the loop body;
      a loop that ends without it returns Python's \<^verbatim>\<open>None\<close>\<close>
  "kvlm_serialize_keys [] kvlm = Inr None"
| "kvlm_serialize_keys (k # ks) kvlm =
     (if k = [] then kvlm_serialize_keys ks kvlm
      else
        (case map_of kvlm k of
           None \<Rightarrow> Inl KeyError
         | Some val \<Rightarrow>
             let vals = (case val of Val v \<Rightarrow> [v] | Vals vs \<Rightarrow> vs);
                 ret = concat (map (\<lambda>v. k @ [SP] @ replace_nl_nlsp v @ [NL]) vals)
             in (case map_of kvlm [] of
                   None \<Rightarrow> Inl KeyError
                 | Some (Vals ms) \<Rightarrow> Inl TypeError
                 | Some (Val m) \<Rightarrow> Inr (Some (ret @ [NL] @ m)))))"

definition kvlm_serialize :: "kvlm \<Rightarrow> error + bytes option" where
  "kvlm_serialize kvlm = kvlm_serialize_keys (map fst kvlm) kvlm"

section \<open>Objects\<close>

datatype GitObject = GitBlob bytes | GitCommit kvlm | GitTree "GitTreeLeaf list" | GitTag kvlm

fun obj_fmt :: "GitObject \<Rightarrow> bytes" where
  "obj_fmt (GitBlob _) = ''blob''"
| "obj_fmt (GitCommit _) = ''commit''"
| "obj_fmt (GitTree _) = ''tree''"
| "obj_fmt (GitTag _) = ''tag''"

fun serialize :: "GitObject \<Rightarrow> error + bytes option" where
  "serialize (GitBlob blobdata) = Inr (Some blobdata)"
| "serialize (GitCommit kvlm) = kvlm_serialize kvlm"
| "serialize (GitTree items) = map_sum id Some (tree_serializer items)"
| "serialize (GitTag kvlm) = kvlm_serialize kvlm"

datatype constructor = CGitCommit | CGitTree | CGitTag | CGitBlob

definition pick_constructor :: "bytes \<Rightarrow> constructor option" where
  \<comment> \<open>the \<^verbatim>\<open>if fmt==b'commit' ... elif ...\<close> chain of \<^verbatim>\<open>object_read\<close> and \<^verbatim>\<open>object_hash\<close>\<close>
  "pick_constructor fmt =
     (if fmt = ''commit'' then Some CGitCommit
      else if fmt = ''tree'' then Some CGitTree
      else if fmt = ''tag'' then Some CGitTag
      else if fmt = ''blob'' then Some CGitBlob
      else None)"

fun construct :: "constructor \<Rightarrow> bytes \<Rightarrow> (error + GitObject) option" where
  \<comment> \<open>\<^verbatim>\<open>c(repo, data)\<close>: the constructor calls \<^verbatim>\<open>deserialize(data)\<close>\<close>
  "construct CGitBlob data = Some (Inr (GitBlob data))"
| "construct CGitCommit data = map_option (map_sum id GitCommit) (kvlm_parse data)"
| "construct CGitTree data = map_option (map_sum id GitTree) (tree_parse data)"
| "construct CGitTag data = map_option (map_sum id GitTag) (kvlm_parse data)"

definition object_decode :: "bytes \<Rightarrow> bytes \<Rightarrow> (error + GitObject) option" where
  \<comment> \<open>the dispatch of \<^verbatim>\<open>object_hash\<close>: the object of type \<open>fmt\<close> built from \<open>data\<close>\<close>
  "object_decode fmt data =
     (case pick_constructor fmt of
        None \<Rightarrow> Some (Inl UnsupportedType)
      | Some c \<Rightarrow> construct c data)"

definition object_parse :: "bytes \<Rightarrow> (error + GitObject) option" where
  \<comment> \<open>the body of \<^verbatim>\<open>object_read\<close> on the decompressed bytes\<close>
  "object_parse raw =
     (let x = find_byte raw SP 0;
          fmt = slice raw 0 x;
          y = find_byte raw NUL x
      in case decode_ascii (slice raw x y) of
           Inl e \<Rightarrow> Some (Inl e)
         | Inr s \<Rightarrow>
             (case py_int s 10 of
                Inl e \<Rightarrow> Some (Inl e)
              | Inr size0 \<Rightarrow>
                  if size0 \<noteq> int (length raw) - y - 1 then Some (Inl CorruptObject)
                  else
                    (case pick_constructor fmt of
                       None \<Rightarrow> Some (Inl (if is_ascii fmt then UnsupportedType
                                            else UnicodeDecodeError))
                     | Some c \<Rightarrow> construct c (slice_from raw (y + 1)))))"

section \<open>The repository on disk\<close>

text \<open>
  The part of the git directory the modelled functions touch. \<open>ref_files\<close> gives, for a
  name \<open>ref\<close>, the text \<^verbatim>\<open>open(os.path.join(gitdir, ref), 'r').read()\<close> returns, and \<open>None\<close>
  where \<^verbatim>\<open>open\<close> fails. \<open>objects\<close> gives what \<^verbatim>\<open>objects/<prefix>\<close> is: nothing, something
  that is not a directory, or a directory with its entries in \<^verbatim>\<open>os.listdir\<close> order. An
  object name \<open>sha\<close> addresses the entry \<open>drop 2 sha\<close> of the bucket \<open>take 2 sha\<close>, which
  is what \<^verbatim>\<open>os.path.join\<close> builds when \<open>sha\<close> has more than two characters and no path
  separator (a hex digest has). The directory \<^verbatim>\<open>objects\<close> itself exists.
\<close>

datatype fsnode = File bytes | Directory

datatype bucket = Bucket "(string \<times> fsnode) list" | NotDir

record repo =
  ref_files :: "string \<rightharpoonup> string"
  objects :: "string \<rightharpoonup> bucket"

definition repo_dir_objects :: "repo \<Rightarrow> string \<Rightarrow> bool \<Rightarrow> error + (bool \<times> repo)" where
  \<comment> \<open>\<^verbatim>\<open>repo_dir(repo, "objects", prefix, mkdir=mkdir)\<close>: whether a path is returned, and
      the repository afterwards\<close>
  "repo_dir_objects r p mkdir =
     (case objects r p of
        Some (Bucket _) \<Rightarrow> Inr (True, r)
      | Some NotDir \<Rightarrow> Inl NotADirectory
      | None \<Rightarrow>
          if mkdir then Inr (True, r\<lparr>objects := (objects r)(p \<mapsto> Bucket [])\<rparr>)
          else Inr (False, r))"

definition open_rb :: "repo \<Rightarrow> string \<Rightarrow> string \<Rightarrow> error + bytes" where
  \<comment> \<open>\<^verbatim>\<open>open(path, "rb").read()\<close> on \<^verbatim>\<open>objects/<p>/<rest>\<close>\<close>
  "open_rb r p rest =
     (case objects r p of
        Some (Bucket files) \<Rightarrow>
          (case map_of files rest of Some (File content) \<Rightarrow> Inr content | _ \<Rightarrow> Inl OSError)
      | _ \<Rightarrow> Inl OSError)"

definition open_wb :: "repo \<Rightarrow> string \<Rightarrow> string \<Rightarrow> bytes \<Rightarrow> error + repo" where
  \<comment> \<open>\<^verbatim>\<open>open(path, 'wb').write(content)\<close> on \<^verbatim>\<open>objects/<p>/<rest>\<close>: the file is created
      or overwritten\<close>
  "open_wb r p rest content =
     (case objects r p of
        Some (Bucket files) \<Rightarrow>
          (case map_of files rest of
             Some Directory \<Rightarrow> Inl OSError
           | _ \<Rightarrow> Inr (r\<lparr>objects := (objects r)(p \<mapsto> Bucket (AList.update rest (File content) files))\<rparr>))
      | _ \<Rightarrow> Inl OSError)"

definition listdir :: "repo \<Rightarrow> string \<Rightarrow> string list" where
  "listdir r p = (case objects r p of Some (Bucket files) \<Rightarrow> map fst files | _ \<Rightarrow> [])"

subsection \<open>Reading and writing objects\<close>

text \<open>
  \<^verbatim>\<open>zlib\<close> and \<^verbatim>\<open>hashlib\<close> are libraries; the functions that use them take
  \<^verbatim>\<open>zlib.decompress\<close> (\<open>None\<close> when it raises), \<^verbatim>\<open>zlib.compress\<close> and the hex digest of
  SHA-1 as parameters.
\<close>

definition object_read :: "(bytes \<Rightarrow> bytes option) \<Rightarrow> repo \<Rightarrow> string \<Rightarrow> (error + GitObject) option" where
  "object_read decompress r sha' =
     (case repo_dir_objects r (take 2 sha') False of
        Inl e \<Rightarrow> Some (Inl e)
      | Inr (found, _) \<Rightarrow>
          if \<not> found then Some (Inl TypeError)
          else
            (case open_rb r (take 2 sha') (drop 2 sha') of
               Inl e \<Rightarrow> Some (Inl e)
             | Inr z \<Rightarrow>
                 (case decompress z of
                    None \<Rightarrow> Some (Inl ZlibError)
                  | Some raw \<Rightarrow> object_parse raw)))"

fun dec_str :: "nat \<Rightarrow> string" where
  "dec_str n = (if n < 10 then [hexdigit n] else dec_str (n div 10) @ [hexdigit (n mod 10)])"

declare dec_str.simps [simp del]

definition object_write ::
  "(bytes \<Rightarrow> string) \<Rightarrow> (bytes \<Rightarrow> bytes) \<Rightarrow> GitObject \<Rightarrow> bool \<Rightarrow> repo \<Rightarrow> error + (string \<times> repo)" where
  \<comment> \<open>\<^verbatim>\<open>object_write(obj, actually_write)\<close>, where \<open>r\<close> is the state of \<^verbatim>\<open>obj.repo\<close>; the
      result is the returned hash and the state afterwards\<close>
  "object_write sha1 compress obj actually_write r =
     (case serialize obj of
        Inl e \<Rightarrow> Inl e
      | Inr None \<Rightarrow> Inl TypeError
      | Inr (Some data) \<Rightarrow>
          let result = obj_fmt obj @ [SP] @ dec_str (length data) @ [NUL] @ data;
              sha = sha1 result
          in if actually_write
             then (case repo_dir_objects r (take 2 sha) True of
                     Inl e \<Rightarrow> Inl e
                   | Inr (_, r') \<Rightarrow>
                       (case open_wb r' (take 2 sha) (drop 2 sha) (compress result) of
                          Inl e \<Rightarrow> Inl e
                        | Inr r'' \<Rightarrow> Inr (sha, r'')))
             else Inr (sha, r))"

section \<open>References and names\<close>

partial_function (option) ref_resolve :: "repo \<Rightarrow> string \<Rightarrow> (error + string) option" where
  \<comment> \<open>\<open>None\<close> is a recursion that never returns\<close>
  "ref_resolve r ref =
     (case ref_files r ref of
        None \<Rightarrow> Some (Inl OSError)
      | Some content \<Rightarrow>
          let data = butlast content
          in if prefix ''ref: '' data then ref_resolve r (drop (length ''ref: '') data)
             else Some (Inr data))"

definition is_str_space :: "char \<Rightarrow> bool" where
  \<comment> \<open>the code points below 256 that \<^verbatim>\<open>str.strip()\<close> removes\<close>
  "is_str_space c =
     ((of_char c :: nat) \<in> {9, 10, 11, 12, 13, 28, 29, 30, 31, 32, 133, 160})"

definition is_hex :: "char \<Rightarrow> bool" where
  "is_hex c = (c \<in> set ''0123456789ABCDEFabcdef'')"

definition hashRE_match :: "string \<Rightarrow> bool" where
  \<comment> \<open>\<^verbatim>\<open>re.compile(r"^[0-9A-Fa-f]{4,40}$").match(name)\<close>; \<^verbatim>\<open>$\<close> also matches before one
      final newline\<close>
  "hashRE_match name =
     (let h = (if name \<noteq> [] \<and> last name = NL then butlast name else name)
      in 4 \<le> length h \<and> length h \<le> 40 \<and> list_all is_hex h)"

definition lower_char :: "char \<Rightarrow> char" where
  "lower_char c =
     (case map_of (zip ''ABCDEFGHIJKLMNOPQRSTUVWXYZ'' ''abcdefghijklmnopqrstuvwxyz'') c of
        None \<Rightarrow> c | Some l \<Rightarrow> l)"

definition lower :: "string \<Rightarrow> string" where
  \<comment> \<open>\<^verbatim>\<open>name.lower()\<close> on an ASCII string\<close>
  "lower s = map lower_char s"

definition object_resolve :: "repo \<Rightarrow> string \<Rightarrow> (error + string list option) option" where
  \<comment> \<open>the result is Python's \<^verbatim>\<open>None\<close> or the list of candidates\<close>
  "object_resolve r name =
     (if list_all is_str_space name then Some (Inr None)
      else if name = ''HEAD''
        then map_option (map_sum id (\<lambda>s. Some [s])) (ref_resolve r ''HEAD'')
      else if hashRE_match name
        then (if length name = 40 then Some (Inr (Some [lower name]))
              else
                let name' = lower name;
                    p = take 2 name'
                in (case repo_dir_objects r p False of
                      Inl e \<Rightarrow> Some (Inl e)
                    | Inr (found, _) \<Rightarrow>
                        if found
                        then Some (Inr (Some (map (\<lambda>f. p @ f)
                                (filter (\<lambda>f. prefix (drop 2 name') f) (listdir r p)))))
                        else Some (Inr (Some []))))
      else Some (Inr (Some [])))"

definition kvlm_of :: "GitObject \<Rightarrow> kvlm" where
  \<comment> \<open>\<^verbatim>\<open>obj.kvlm\<close>, read only from commits and tags\<close>
  "kvlm_of obj = (case obj of GitCommit k \<Rightarrow> k | GitTag k \<Rightarrow> k | _ \<Rightarrow> [])"

definition kvlm_field :: "GitObject \<Rightarrow> bytes \<Rightarrow> error + string" where
  \<comment> \<open>\<^verbatim>\<open>obj.kvlm[key].decode("ascii")\<close>\<close>
  "kvlm_field obj key =
     (case map_of (kvlm_of obj) key of
        None \<Rightarrow> Inl KeyError
      | Some (Vals _) \<Rightarrow> Inl AttributeError
      | Some (Val v) \<Rightarrow> decode_ascii v)"

partial_function (option) object_find_loop ::
  "(bytes \<Rightarrow> bytes option) \<Rightarrow> repo \<Rightarrow> string \<Rightarrow> bytes \<Rightarrow> bool \<Rightarrow> (error + string option) option" where
  \<comment> \<open>the \<^verbatim>\<open>while True\<close> loop of \<^verbatim>\<open>object_find\<close>; \<open>Inr None\<close> is \<^verbatim>\<open>return None\<close>\<close>
  "object_find_loop decompress r sha' fmt follow =
     (case object_read decompress r sha' of
        None \<Rightarrow> None
      | Some (Inl e) \<Rightarrow> Some (Inl e)
      | Some (Inr obj) \<Rightarrow>
          if obj_fmt obj = fmt then Some (Inr (Some sha'))
          else if \<not> follow then Some (Inr None)
          else if obj_fmt obj = ''tag''
            then (case kvlm_field obj ''object'' of
                    Inl e \<Rightarrow> Some (Inl e)
                  | Inr s \<Rightarrow> object_find_loop decompress r s fmt follow)
          else if obj_fmt obj = ''commit'' \<and> fmt = ''tree''
            then (case kvlm_field obj ''tree'' of
                    Inl e \<Rightarrow> Some (Inl e)
                  | Inr s \<Rightarrow> object_find_loop decompress r s fmt follow)
          else Some (Inr None))"

definition object_find ::
  "(bytes \<Rightarrow> bytes option) \<Rightarrow> repo \<Rightarrow> string \<Rightarrow> bytes option \<Rightarrow> bool \<Rightarrow> (error + string option) option" where
  \<comment> \<open>\<^verbatim>\<open>object_find(repo, name, fmt, follow)\<close>; \<open>fmt = None\<close> is the default argument.
      \<^verbatim>\<open>not sha\<close> holds for \<^verbatim>\<open>None\<close> and for the empty list; past both checks the list has
      one element, \<^verbatim>\<open>sha[0]\<close>.\<close>
  "object_find decompress r name fmt follow =
     (case object_resolve r name of
        None \<Rightarrow> None
      | Some (Inl e) \<Rightarrow> Some (Inl e)
      | Some (Inr res) \<Rightarrow>
          let cands = (case res of None \<Rightarrow> [] | Some l \<Rightarrow> l)
          in if cands = [] then Some (Inl (NameNotFound name))
             else if 1 < length cands then Some (Inl (AmbiguousName name cands))
             else
               (case fmt of
                  None \<Rightarrow> Some (Inr (Some (hd cands)))
                | Some f \<Rightarrow>
                    if f = [] then Some (Inr (Some (hd cands)))
                    else object_find_loop decompress r (hd cands) f follow))"

section \<open>The index file\<close>

text \<open>
  An entry holds the raw byte slices the parser stores. The attributes
  \<^verbatim>\<open>mode_perms\<close>, \<^verbatim>\<open>flag_assume_valid\<close>, \<^verbatim>\<open>flag_extended\<close>, \<^verbatim>\<open>flag_stage\<close> and
  \<^verbatim>\<open>flag_name_length\<close> are \<^verbatim>\<open>None\<close> in every entry it builds and are left out.
\<close>

record GitIndexEntry =
  ctime :: bytes
  mtime :: bytes
  dev :: bytes
  ino :: bytes
  mode_type :: bytes
  uid :: bytes
  gid :: bytes
  fsize :: bytes
  object_hash :: bytes
  name :: bytes





section \<open>Notions used in the statements\<close>

text \<open>Strings made of the digits \<^verbatim>\<open>hex\<close> produces.\<close>

definition plain_hex :: "string \<Rightarrow> bool" where
  "plain_hex s = (\<forall>c \<in> set s. \<exists>d < 16. c = hexdigit d)"

text \<open>The decimal digits of a declared length.\<close>

definition is_dec :: "char \<Rightarrow> bool" where
  "is_dec c = (c \<in> set ''0123456789'')"

text \<open>The reference a symbolic reference file points at, if the file is one.\<close>

definition ref_target :: "repo \<Rightarrow> string \<Rightarrow> string option" where
  "ref_target r ref =
     (case ref_files r ref of
        None \<Rightarrow> None
      | Some content \<Rightarrow>
          if prefix ''ref: '' (butlast content)
          then Some (drop (length ''ref: '') (butlast content)) else None)"

section \<open>Example data\<close>

text \<open>A tree entry whose raw hash starts with a zero byte.\<close>

definition zero_led_hash :: bytes where
  "zero_led_hash = [NUL, CHR 0xAA, CHR 0xAA, CHR 0xAA, CHR 0xAA, CHR 0xAA, CHR 0xAA, CHR 0xAA,
     CHR 0xAA, CHR 0xAA, CHR 0xAA, CHR 0xAA, CHR 0xAA, CHR 0xAA, CHR 0xAA, CHR 0xAA, CHR 0xAA,
     CHR 0xAA, CHR 0xAA, CHR 0xAA]"

definition example_tree_entry :: "bytes \<times> bytes \<times> bytes" where
  "example_tree_entry = (''100644'', ''a'', zero_led_hash)"

text \<open>A header of two keys, then the message; and what remains of it with one key.\<close>

definition two_key_raw :: bytes where
  "two_key_raw = ''tree t1'' @ [NL] @ ''parent p1'' @ [NL, NL] @ ''msg''"

definition two_key_kvlm :: kvlm where
  "two_key_kvlm = [(''tree'', Val ''t1''), (''parent'', Val ''p1''), ([], Val ''msg'')]"

definition one_key_raw :: bytes where
  "one_key_raw = ''tree t1'' @ [NL, NL] @ ''msg''"

definition one_key_kvlm :: kvlm where
  "one_key_kvlm = [(''tree'', Val ''t1''), ([], Val ''msg'')]"

text \<open>A tree leaf whose hash is the full 40-character form of a hash with a zero byte first.\<close>

definition zero_led_leaf :: GitTreeLeaf where
  "zero_led_leaf = \<lparr>mode = ''100644'', path = ''a'',
                     sha = ''00aaaaaaaaaaaaaaaaaaaaaaaaaaaaaaaaaaaaaa''\<rparr>"

text \<open>
  A repository where \<^verbatim>\<open>HEAD\<close> points at a branch that holds a hash and another branch points at
  itself, and one where \<^verbatim>\<open>HEAD\<close> and a branch point at each other.
\<close>

definition main_hash :: string where
  "main_hash = ''29ff16c9c14e2652b22f8b78bb08a5a07930c147''"

definition chained_repo :: repo where
  "chained_repo =
     \<lparr>ref_files = [''HEAD'' \<mapsto> ''ref: refs/heads/main'' @ [NL],
                   ''refs/heads/main'' \<mapsto> main_hash @ [NL],
                   ''refs/heads/loop'' \<mapsto> ''ref: refs/heads/loop'' @ [NL]],
      objects = Map.empty\<rparr>"

definition cyclic_repo :: repo where
  "cyclic_repo =
     \<lparr>ref_files = [''HEAD'' \<mapsto> ''ref: refs/heads/main'' @ [NL],
                   ''refs/heads/main'' \<mapsto> ''ref: HEAD'' @ [NL]],
      objects = Map.empty\<rparr>"






text \<open>
  A stand-in for the digest (every input has the same one) and the repository after a
  blob with the content \<^verbatim>\<open>x\<close> has been written, uncompressed, into \<open>chained_repo\<close>.
\<close>

definition toy_sha1 :: "bytes \<Rightarrow> string" where
  "toy_sha1 b = main_hash"

definition written_repo :: repo where
  "written_repo = chained_repo\<lparr>objects :=
     [''29'' \<mapsto> Bucket [(''ff16c9c14e2652b22f8b78bb08a5a07930c147'', File (''blob 1'' @ [NUL] @ ''x''))]]\<rparr>"

text \<open>
  A store of four objects, kept uncompressed (read with the identity for
  \<^verbatim>\<open>zlib.decompress\<close>): a blob and a tag that points at it in the bucket \<^verbatim>\<open>ab\<close>, their names
  sharing the prefix \<^verbatim>\<open>abc12\<close>; a commit and its empty tree in the bucket \<^verbatim>\<open>cd\<close>.
\<close>

definition blob_hash :: string where
  "blob_hash = ''abc1230000000000000000000000000000000000''"

definition tag_hash :: string where
  "tag_hash = ''abc1240000000000000000000000000000000000''"

definition commit_hash :: string where
  "commit_hash = ''cd00000000000000000000000000000000000001''"

definition tree_hash :: string where
  "tree_hash = ''cd00000000000000000000000000000000000002''"

definition blob_payload :: bytes where
  "blob_payload = ''x''"

definition tag_payload :: bytes where
  "tag_payload = ''object abc1230000000000000000000000000000000000'' @ [NL] @ ''type blob'' @ [NL, NL] @ ''m''"

definition commit_payload :: bytes where
  "commit_payload = ''tree cd00000000000000000000000000000000000002'' @ [NL, NL] @ ''m''"

definition example_store :: repo where
  "example_store =
     \<lparr>ref_files = Map.empty,
      objects = [''ab'' \<mapsto> Bucket [(drop 2 blob_hash, File (''blob'' @ [SP] @ ''1'' @ [NUL] @ blob_payload)),
                                   (drop 2 tag_hash, File (''tag'' @ [SP] @ ''60'' @ [NUL] @ tag_payload))],
                 ''cd'' \<mapsto> Bucket [(drop 2 commit_hash, File (''commit'' @ [SP] @ ''48'' @ [NUL] @ commit_payload)),
                                   (drop 2 tree_hash, File (''tree'' @ [SP] @ ''0'' @ [NUL] @ []))]]\<rparr>"

text \<open>
  A store whose one object has a type tag that is none of the four and holds a byte
  outside ASCII; its declared length is right.
\<close>

definition bad_tag :: bytes where
  "bad_tag = ''bl'' @ [CHR 0xFF] @ ''b''"

definition bad_tag_raw :: bytes where
  "bad_tag_raw = bad_tag @ [SP] @ ''1'' @ [NUL] @ ''x''"

definition bad_tag_store :: repo where
  "bad_tag_store =
     \<lparr>ref_files = Map.empty,
      objects = [''ab'' \<mapsto> Bucket [(drop 2 blob_hash, File bad_tag_raw)]]\<rparr>"

section \<open>Properties of the tree-entry codec\<close>

subsection \<open>Searching and slicing inside a concatenation\<close>

lemma clamp_index_nat: "clamp_index n (int k) = min k n"
  by (simp add: clamp_index_def)

lemma index_of_append: "c \<notin> set a \<Longrightarrow> index_of c (a @ c # b) = Some (length a)"
  by (induction a) auto

lemma index_of_None: "c \<notin> set a \<Longrightarrow> index_of c a = None"
  by (induction a) auto

lemma find_byte_at:
  "c \<notin> set a \<Longrightarrow> find_byte (pre @ a @ c # b) c (int (length pre)) = int (length pre + length a)"
  by (simp add: find_byte_def clamp_index_def index_of_append)

lemma slice_mid:
  "slice (pre @ a @ post) (int (length pre)) (int (length pre + length a)) = a"
  by (simp add: slice_def clamp_index_def)

lemma slice_mid_clip:
  "length a \<le> k \<Longrightarrow> slice (pre @ a) (int (length pre)) (int (length pre + k)) = a"
  by (simp add: slice_def clamp_index_def)

lemma tree_parse_one_entry:
  assumes "spec_tree_entry_ok (m, n, h)"
  shows "tree_parse_one (pre @ spec_tree_entry (m, n, h) @ post) (int (length pre)) =
           Inr (int (length (pre @ spec_tree_entry (m, n, h))), leaf_of_entry (m, n, h))"
proof -
  let ?raw = "pre @ spec_tree_entry (m, n, h) @ post"
  from assms have m: "length m = 5 \<or> length m = 6" and sp: "SP \<notin> set m"
    and nul: "NUL \<notin> set n" and h: "length h = 20"
    by (simp_all add: spec_tree_entry_ok_def)
  have raw1: "?raw = pre @ m @ SP # (n @ [NUL] @ h @ post)"
    by (simp add: spec_tree_entry_def)
  have x: "find_byte ?raw SP (int (length pre)) = int (length pre + length m)"
    unfolding raw1 by (rule find_byte_at [OF sp])
  have raw2: "?raw = (pre @ m) @ (SP # n) @ NUL # (h @ post)"
    by (simp add: spec_tree_entry_def)
  have nul': "NUL \<notin> set (SP # n)" using nul by simp
  have y: "find_byte ?raw NUL (int (length pre + length m)) = int (length pre + length m + 1 + length n)"
    unfolding raw2 using find_byte_at [OF nul', of "pre @ m" "h @ post"] by simp
  have mode: "slice ?raw (int (length pre)) (int (length pre + length m)) = m"
    unfolding raw1 by (rule slice_mid)
  have raw3: "?raw = (pre @ m @ [SP]) @ n @ (NUL # h @ post)"
    by (simp add: spec_tree_entry_def)
  have path: "slice ?raw (int (length pre + length m) + 1) (int (length pre + length m + 1 + length n)) = n"
    unfolding raw3 using slice_mid [of "pre @ m @ [SP]" n "NUL # h @ post"] by (simp add: add.commute add.left_commute)
  have raw4: "?raw = (pre @ m @ [SP] @ n @ [NUL]) @ h @ post"
    by (simp add: spec_tree_entry_def)
  have hash: "slice ?raw (int (length pre + length m + 1 + length n) + 1)
                (int (length pre + length m + 1 + length n) + 20 + 1) = h"
    unfolding raw4 using slice_mid [of "pre @ m @ [SP] @ n @ [NUL]" h post] h
    by (simp add: add.commute add.left_commute)
  show ?thesis
    unfolding tree_parse_one_def Let_def x y mode path hash
    using m h by (auto simp add: leaf_of_entry_def spec_tree_entry_def)
qed

lemma tree_parse_loop_entries:
  "\<forall>e \<in> set es. spec_tree_entry_ok e \<Longrightarrow>
   tree_parse_loop (pre @ concat (map spec_tree_entry es)) (int (length pre)) ret =
     Some (Inr (ret @ map leaf_of_entry es))"
proof (induction es arbitrary: pre ret)
  case Nil
  show ?case by (subst tree_parse_loop.simps) simp
next
  case (Cons e es)
  obtain m n h where e: "e = (m, n, h)" by (cases e) auto
  from Cons.prems have ok: "spec_tree_entry_ok (m, n, h)" and rest: "\<forall>e \<in> set es. spec_tree_entry_ok e"
    by (simp_all add: e)
  let ?raw = "pre @ concat (map spec_tree_entry (e # es))"
  have raw: "?raw = pre @ spec_tree_entry (m, n, h) @ concat (map spec_tree_entry es)"
    by (simp add: e)
  have lt: "int (length pre) < int (length ?raw)"
    by (simp add: e spec_tree_entry_def)
  have one: "tree_parse_one ?raw (int (length pre)) =
      Inr (int (length (pre @ spec_tree_entry (m, n, h))), leaf_of_entry (m, n, h))"
    unfolding raw by (rule tree_parse_one_entry [OF ok])
  have "tree_parse_loop ?raw (int (length pre)) ret =
        tree_parse_loop ?raw (int (length (pre @ spec_tree_entry (m, n, h)))) (ret @ [leaf_of_entry (m, n, h)])"
    by (subst tree_parse_loop.simps) (simp only: lt one if_True sum.case prod.case)
  also have "\<dots> = Some (Inr ((ret @ [leaf_of_entry (m, n, h)]) @ map leaf_of_entry es))"
    using Cons.IH [OF rest, of "pre @ spec_tree_entry (m, n, h)" "ret @ [leaf_of_entry (m, n, h)]"]
    by (simp add: e)
  finally show ?case by (simp add: e)
qed

subsection \<open>Raw hashes and their hex form\<close>

lemma foldl_bytes_snoc:
  "foldl (\<lambda>acc c. acc * 256 + of_char c) (0::nat) (b @ [c]) =
     foldl (\<lambda>acc c. acc * 256 + of_char c) 0 b * 256 + of_char c"
  by simp

lemma of_char_less_256: "(of_char c :: nat) < 256"
  by (metis of_char_mod_256 mod_less_divisor zero_less_numeral)

lemma be_bytes_foldl:
  "be_bytes (length b) (foldl (\<lambda>acc c. acc * 256 + of_char c) (0::nat) b) = b"
proof (induction b rule: rev_induct)
  case Nil
  show ?case by simp
next
  case (snoc c b)
  have "(of_char c :: nat) < 256" by (rule of_char_less_256)
  then show ?case using snoc by simp
qed

lemma foldl_bytes_bound:
  "foldl (\<lambda>acc c. acc * 256 + of_char c) (0::nat) b < 256 ^ length b"
proof (induction b rule: rev_induct)
  case Nil
  show ?case by simp
next
  case (snoc c b)
  have c: "(of_char c :: nat) < 256" by (rule of_char_less_256)
  let ?n = "foldl (\<lambda>acc c. acc * 256 + of_char c) (0::nat) b"
  from snoc have "?n + 1 \<le> 256 ^ length b" by simp
  then have "(?n + 1) * 256 \<le> 256 ^ length b * 256" by (rule mult_le_mono1)
  moreover have "?n * 256 + of_char c < (?n + 1) * 256" using c by simp
  ultimately have "?n * 256 + of_char c < 256 ^ length b * 256" by (rule less_le_trans [rotated])
  then show ?case by (simp add: mult.commute)
qed

lemma to_bytes_from_bytes: "to_bytes (from_bytes b) (length b) = Inr b"
proof -
  let ?n = "foldl (\<lambda>acc c. acc * 256 + of_char c) (0::nat) b"
  have "int ?n < int (256 ^ length b)" using foldl_bytes_bound [of b] by (simp only: of_nat_less_iff)
  then have "\<not> (256 ^ length b \<le> int ?n)" by simp
  then show ?thesis by (simp add: to_bytes_def from_bytes_def be_bytes_foldl)
qed

lemma less_16_cases:
  "d < 16 \<Longrightarrow> d \<in> {0, 1, 2, 3, 4, 5, 6, 7, 8, 9, 10, 11, 12, 13, 14, 15::nat}"
  by simp arith

lemma digit_val_hexdigit: "d < 16 \<Longrightarrow> digit_val (hexdigit d) = Some d"
  by (drule less_16_cases) (auto simp add: digit_val_def hexdigit_def)

lemma hexdigit_not_special:
  "d < 16 \<Longrightarrow> hexdigit d \<noteq> CHR ''_'' \<and> hexdigit d \<noteq> CHR ''x'' \<and> hexdigit d \<noteq> CHR ''X''
     \<and> hexdigit d \<noteq> CHR ''-'' \<and> hexdigit d \<noteq> CHR ''+'' \<and> \<not> is_int_space (hexdigit d)"
proof -
  assume d: "d < 16"
  have v: "(of_char (hexdigit d) :: nat) = (if d < 10 then 48 + d else 87 + d)"
    using less_16_cases [OF d] by (auto simp add: hexdigit_def)
  have "(of_char (hexdigit d) :: nat) \<noteq> of_char (CHR ''_'')"
       "(of_char (hexdigit d) :: nat) \<noteq> of_char (CHR ''x'')"
       "(of_char (hexdigit d) :: nat) \<noteq> of_char (CHR ''X'')"
       "(of_char (hexdigit d) :: nat) \<noteq> of_char (CHR ''-'')"
       "(of_char (hexdigit d) :: nat) \<noteq> of_char (CHR ''+'')"
    using d unfolding v by simp_all
  moreover have "\<not> is_int_space (hexdigit d)"
    using d unfolding is_int_space_def v by simp
  ultimately show ?thesis by auto
qed


lemma plain_hex_not_special:
  assumes "plain_hex s" and "c \<in> set s"
  shows "c \<noteq> CHR ''_'' \<and> c \<noteq> CHR ''x'' \<and> c \<noteq> CHR ''X''
     \<and> c \<noteq> CHR ''-'' \<and> c \<noteq> CHR ''+'' \<and> \<not> is_int_space c"
proof -
  from assms obtain d where "d < 16" "c = hexdigit d" by (auto simp add: plain_hex_def)
  then show ?thesis using hexdigit_not_special [of d] by simp
qed

lemma plain_hex_hex_str: "plain_hex (hex_str n)"
proof (induction n rule: hex_str.induct)
  case (1 n)
  show ?case
  proof (cases "n < 16")
    case True
    then show ?thesis by (subst hex_str.simps) (auto simp add: plain_hex_def)
  next
    case False
    have "\<exists>d<16. hexdigit (n mod 16) = hexdigit d"
      by (rule exI [of _ "n mod 16"]) simp
    with False 1 show ?thesis by (subst hex_str.simps) (auto simp add: plain_hex_def)
  qed
qed

lemma hex_str_nonempty: "hex_str n \<noteq> []"
  by (subst hex_str.simps) simp

lemma digits_value_hex_str: "digits_value 16 (hex_str n) = n"
proof (induction n rule: hex_str.induct)
  case (1 n)
  show ?case
  proof (cases "n < 16")
    case True
    then show ?thesis
      by (subst hex_str.simps) (simp add: digits_value_def digit_val_hexdigit)
  next
    case False
    have m: "n mod 16 < 16" by simp
    from False 1 have ih: "digits_value 16 (hex_str (n div 16)) = n div 16" by simp
    have "digits_value 16 (hex_str n) = digits_value 16 (hex_str (n div 16)) * 16 + n mod 16"
      using False by (subst hex_str.simps) (simp add: digits_value_def digit_val_hexdigit [OF m])
    then show ?thesis using ih by simp
  qed
qed

lemma digits_ok_plain: "plain_hex s \<Longrightarrow> digits_ok 16 p s = (p \<or> s \<noteq> [])"
proof (induction s arbitrary: p)
  case Nil
  show ?case by simp
next
  case (Cons c s)
  from Cons.prems obtain d where d: "d < 16" "c = hexdigit d" by (auto simp add: plain_hex_def)
  from Cons.prems have "plain_hex s" by (simp add: plain_hex_def)
  then have "digits_ok 16 True s" using Cons.IH by simp
  then show ?case using d hexdigit_not_special [OF d(1)]
    by (simp add: is_digit_def digit_val_hexdigit)
qed

lemma strip_plain:
  assumes "plain_hex s"
  shows "rev (dropWhile is_int_space (rev (dropWhile is_int_space s))) = s"
proof -
  have ns: "\<forall>c \<in> set s. \<not> is_int_space c"
    using plain_hex_not_special [OF assms] by blast
  then have "dropWhile is_int_space s = s" by (cases s) auto
  moreover have "dropWhile is_int_space (rev s) = rev s"
    using ns by (cases "rev s") (auto simp del: rev_is_Nil_conv dest!: arg_cong [where f = set])
  ultimately show ?thesis by simp
qed

lemma py_int_plain_hex:
  assumes "plain_hex s" and "s \<noteq> []"
  shows "py_int s 16 = Inr (int (digits_value 16 s))"
proof -
  obtain c cs where s: "s = c # cs" using assms(2) by (cases s) auto
  from assms(1) s obtain d where d: "d < 16" "c = hexdigit d" by (auto simp add: plain_hex_def)
  have hd: "hd s \<noteq> CHR ''-''" "hd s \<noteq> CHR ''+''"
    using hexdigit_not_special [OF d(1)] d(2) s by simp_all
  have nx: "CHR ''x'' \<notin> set s" "CHR ''X'' \<notin> set s"
    using plain_hex_not_special [OF assms(1)] by blast+
  have np: "\<not> prefix ''0x'' s" "\<not> prefix ''0X'' s"
    using nx by (auto simp add: prefix_def)
  show ?thesis
    unfolding py_int_def strip_plain [OF assms(1)] Let_def
    using hd np assms by (simp add: digits_ok_plain)
qed

lemma py_int_py_hex: "0 \<le> n \<Longrightarrow> py_int (drop 2 (py_hex n)) 16 = Inr n"
  by (simp add: py_hex_def py_int_plain_hex plain_hex_hex_str hex_str_nonempty digits_value_hex_str)

lemma from_bytes_nonneg: "0 \<le> from_bytes b"
  by (simp add: from_bytes_def)

lemma tree_serializer_loop_entries:
  "\<forall>e \<in> set es. spec_tree_entry_ok e \<Longrightarrow>
   tree_serializer_loop (map leaf_of_entry es) ret = Inr (ret @ concat (map spec_tree_entry es))"
proof (induction es arbitrary: ret)
  case Nil
  show ?case by simp
next
  case (Cons e es)
  obtain m n h where e: "e = (m, n, h)" by (cases e) auto
  from Cons.prems have h: "length h = 20" and rest: "\<forall>e \<in> set es. spec_tree_entry_ok e"
    by (simp_all add: e spec_tree_entry_ok_def)
  have tb: "to_bytes (from_bytes h) 20 = Inr h" using to_bytes_from_bytes [of h] h by simp
  show ?case
    using Cons.IH [OF rest]
    by (simp add: e leaf_of_entry_def py_int_py_hex from_bytes_nonneg tb spec_tree_entry_def)
qed

lemma hex_zero_led:
  "drop 2 (py_hex (from_bytes zero_led_hash)) = ''aaaaaaaaaaaaaaaaaaaaaaaaaaaaaaaaaaaaaa''"
  by (simp add: zero_led_hash_def py_hex_def from_bytes_def hex_str.simps hexdigit_def)

lemma example_tree_entry_ok: "spec_tree_entry_ok example_tree_entry"
  by (simp add: spec_tree_entry_ok_def example_tree_entry_def zero_led_hash_def)

text \<open>
  Claim C10. For every tree payload that is a concatenation of well-formed entries
  \<^verbatim>\<open>mode SP name NUL rawhash(20 bytes)\<close>, \<^verbatim>\<open>tree_parse\<close> returns (one leaf per entry, in
  order) and \<^verbatim>\<open>tree_serializer\<close> of the parsed leaves reproduces the payload byte for
  byte, whatever the leading bytes of each raw hash are.
\<close>

theorem tree_serializer_tree_parse:
  assumes "\<forall>e \<in> set es. spec_tree_entry_ok e"
  shows "tree_parse (concat (map spec_tree_entry es)) = Some (Inr (map leaf_of_entry es))
       \<and> tree_serializer (map leaf_of_entry es) = Inr (concat (map spec_tree_entry es))"
  using tree_parse_loop_entries [OF assms, of "[]" "[]"]
    tree_serializer_loop_entries [OF assms, of "[]"]
  by (simp add: tree_parse_def tree_serializer_def)

theorem tree_serializer_tree_parse_witness:
  "spec_tree_entry_ok example_tree_entry
   \<and> tree_parse (concat (map spec_tree_entry [example_tree_entry]))
       = Some (Inr [leaf_of_entry example_tree_entry])
   \<and> tree_serializer [leaf_of_entry example_tree_entry] = Inr (spec_tree_entry example_tree_entry)
   \<and> sha (leaf_of_entry example_tree_entry) = ''aaaaaaaaaaaaaaaaaaaaaaaaaaaaaaaaaaaaaa''"
  using tree_serializer_tree_parse [of "[example_tree_entry]"] example_tree_entry_ok
  by (simp add: leaf_of_entry_def example_tree_entry_def hex_zero_led)

lemma raw_hash_hex_roundtrip:
  assumes "length h = 20"
  shows "py_int (drop 2 (py_hex (from_bytes h))) 16 = Inr (from_bytes h)
       \<and> to_bytes (from_bytes h) 20 = Inr h"
  using py_int_py_hex [OF from_bytes_nonneg, of h] to_bytes_from_bytes [of h] assms by simp

text \<open>
  Claim C3. The raw hash survives the conversion to hex and back (lemma
  \<open>raw_hash_hex_roundtrip\<close>), but the hex form is not of fixed
  width: \<^verbatim>\<open>hex(int.from_bytes(...))[2:]\<close> drops leading zero digits. Parsing the entry
  whose raw hash is one zero byte followed by nineteen bytes \<^verbatim>\<open>0xaa\<close> gives a leaf whose
  \<^verbatim>\<open>sha\<close> has 38 characters, not 40.
\<close>

theorem tree_parse_one_drops_leading_zero:
  "tree_parse_one (spec_tree_entry example_tree_entry) 0 =
     Inr (29, \<lparr>mode = ''100644'', path = ''a'',
               sha = ''aaaaaaaaaaaaaaaaaaaaaaaaaaaaaaaaaaaaaa''\<rparr>)
   \<and> length ''aaaaaaaaaaaaaaaaaaaaaaaaaaaaaaaaaaaaaa'' = 38"
proof -
  have len: "length zero_led_hash = 20" by (simp add: zero_led_hash_def)
  show ?thesis
    using tree_parse_one_entry [of "''100644''" "''a''" zero_led_hash "[]" "[]"]
      example_tree_entry_ok
    by (simp add: example_tree_entry_def leaf_of_entry_def hex_zero_led spec_tree_entry_def len)
qed

section \<open>Properties of the kvlm codec and of the object codec\<close>

lemmas eval_prims =
  find_byte_def clamp_index_def slice_def slice_from_def getitem_def dct_add_def

lemma kvlm_parse_two_key: "kvlm_parse two_key_raw = Some (Inr two_key_kvlm)"
  by (simp add: kvlm_parse_def two_key_raw_def two_key_kvlm_def kvlm_parse_from.simps
      kvlm_value_end.simps eval_prims)

lemma kvlm_serialize_two_key: "kvlm_serialize two_key_kvlm = Inr (Some one_key_raw)"
  by (simp add: kvlm_serialize_def two_key_kvlm_def one_key_raw_def replace_nl_nlsp_def)

lemma kvlm_parse_one_key: "kvlm_parse one_key_raw = Some (Inr one_key_kvlm)"
  by (simp add: kvlm_parse_def one_key_raw_def one_key_kvlm_def kvlm_parse_from.simps
      kvlm_value_end.simps eval_prims)

text \<open>
  Claim C1. The round trip \<^verbatim>\<open>parse(serialize(parse(x))) == parse(x)\<close> needs a serializer
  that emits every header key. \<^verbatim>\<open>kvlm_serialize\<close> returns from inside its loop, after the
  first key that is not the message: for the well-formed input
  \<^verbatim>\<open>tree t1\nparent p1\n\nmsg\<close> the parse has the keys \<^verbatim>\<open>tree\<close>, \<^verbatim>\<open>parent\<close> and the message,
  its serialization is \<^verbatim>\<open>tree t1\n\nmsg\<close>, and parsing that gives a mapping without
  \<^verbatim>\<open>parent\<close>.
\<close>

theorem kvlm_serialize_stops_after_first_key:
  "kvlm_parse two_key_raw = Some (Inr two_key_kvlm)
   \<and> kvlm_serialize two_key_kvlm = Inr (Some one_key_raw)
   \<and> kvlm_parse one_key_raw = Some (Inr one_key_kvlm)
   \<and> one_key_kvlm \<noteq> two_key_kvlm"
  by (simp add: kvlm_parse_two_key kvlm_serialize_two_key kvlm_parse_one_key)
     (simp add: one_key_kvlm_def two_key_kvlm_def)

lemma blob_roundtrip:
  "serialize (GitBlob b) = Inr (Some b) \<and> object_decode (obj_fmt (GitBlob b)) b = Some (Inr (GitBlob b))"
  by (simp add: object_decode_def pick_constructor_def)

lemma py_int_zero_led:
  "py_int ''00aaaaaaaaaaaaaaaaaaaaaaaaaaaaaaaaaaaaaa'' 16 = Inr (from_bytes zero_led_hash)"
  by (simp add: py_int_def is_int_space_def digits_value_def digit_val_def is_digit_def
      from_bytes_def zero_led_hash_def)

lemma serialize_zero_led_leaf:
  "serialize (GitTree [zero_led_leaf]) = Inr (Some (spec_tree_entry example_tree_entry))"
proof -
  have "to_bytes (from_bytes zero_led_hash) (length zero_led_hash) = Inr zero_led_hash"
    by (rule to_bytes_from_bytes)
  moreover have "length zero_led_hash = 20" by (simp add: zero_led_hash_def)
  ultimately have "to_bytes (from_bytes zero_led_hash) 20 = Inr zero_led_hash" by simp
  then show ?thesis
    by (simp add: tree_serializer_def zero_led_leaf_def py_int_zero_led spec_tree_entry_def
        example_tree_entry_def)
qed

lemma decode_zero_led_tree:
  "object_decode ''tree'' (spec_tree_entry example_tree_entry) =
     Some (Inr (GitTree [\<lparr>mode = ''100644'', path = ''a'',
                           sha = ''aaaaaaaaaaaaaaaaaaaaaaaaaaaaaaaaaaaaaa''\<rparr>]))"
proof -
  have "\<forall>e \<in> set [example_tree_entry]. spec_tree_entry_ok e"
    by (simp add: example_tree_entry_ok)
  from tree_parse_loop_entries [OF this, of "[]" "[]"]
  have "tree_parse (spec_tree_entry example_tree_entry) = Some (Inr [leaf_of_entry example_tree_entry])"
    by (simp add: tree_parse_def)
  then show ?thesis
    by (simp add: object_decode_def pick_constructor_def leaf_of_entry_def example_tree_entry_def
        hex_zero_led)
qed

text \<open>
  Claim C2. Decoding the encoding of an object gives the object back for every blob
  (lemma \<open>blob_roundtrip\<close>), but not for every commit, tag or tree. A commit with the
  headers \<^verbatim>\<open>tree\<close> and \<^verbatim>\<open>parent\<close> is encoded without \<^verbatim>\<open>parent\<close> (the serializer returns
  after the first key) and decodes to a commit without it; the same holds for a tag. A tree
  whose entry has the hash \<^verbatim>\<open>00aa...aa\<close> is encoded correctly and decodes to a tree whose
  entry has the 38-character hash \<^verbatim>\<open>aa...aa\<close>.
\<close>

theorem decode_encode_loses_data:
  "serialize (GitCommit two_key_kvlm) = Inr (Some one_key_raw)
   \<and> object_decode (obj_fmt (GitCommit two_key_kvlm)) one_key_raw = Some (Inr (GitCommit one_key_kvlm))
   \<and> GitCommit one_key_kvlm \<noteq> GitCommit two_key_kvlm
   \<and> serialize (GitTag two_key_kvlm) = Inr (Some one_key_raw)
   \<and> object_decode (obj_fmt (GitTag two_key_kvlm)) one_key_raw = Some (Inr (GitTag one_key_kvlm))
   \<and> serialize (GitTree [zero_led_leaf]) = Inr (Some (spec_tree_entry example_tree_entry))
   \<and> object_decode (obj_fmt (GitTree [zero_led_leaf])) (spec_tree_entry example_tree_entry)
       = Some (Inr (GitTree [\<lparr>mode = ''100644'', path = ''a'',
                               sha = ''aaaaaaaaaaaaaaaaaaaaaaaaaaaaaaaaaaaaaa''\<rparr>]))
   \<and> GitTree [\<lparr>mode = ''100644'', path = ''a'', sha = ''aaaaaaaaaaaaaaaaaaaaaaaaaaaaaaaaaaaaaa''\<rparr>]
       \<noteq> GitTree [zero_led_leaf]"
proof -
  have ne: "one_key_kvlm \<noteq> two_key_kvlm"
    by (simp add: one_key_kvlm_def two_key_kvlm_def)
  have dc: "object_decode ''commit'' one_key_raw = Some (Inr (GitCommit one_key_kvlm))"
    by (simp add: object_decode_def pick_constructor_def kvlm_parse_one_key)
  have dt: "object_decode ''tag'' one_key_raw = Some (Inr (GitTag one_key_kvlm))"
    by (simp add: object_decode_def pick_constructor_def kvlm_parse_one_key)
  show ?thesis
    using ne dc dt serialize_zero_led_leaf decode_zero_led_tree
    by (simp add: kvlm_serialize_two_key zero_led_leaf_def)
qed

section \<open>Properties of reference resolution\<close>

lemma ref_resolve_symbolic:
  "ref_target r ref = Some t \<Longrightarrow> ref_resolve r ref = ref_resolve r t"
  by (subst ref_resolve.simps) (auto simp add: ref_target_def split: option.splits if_splits)

lemma ref_resolve_direct:
  "ref_files r ref = Some content \<Longrightarrow> \<not> prefix ''ref: '' (butlast content) \<Longrightarrow>
   ref_resolve r ref = Some (Inr (butlast content))"
  by (subst ref_resolve.simps) simp

lemma ref_resolve_cycle_aux:
  assumes closed: "\<forall>x \<in> S. \<exists>t \<in> S. ref_target r x = Some t"
    and ret: "ref_resolve r ref = Some y"
  shows "ref \<notin> S"
proof -
  have "r = r \<longrightarrow> ref \<notin> S"
  proof (rule ref_resolve.raw_induct [where P = "\<lambda>r' ref' y'. r' = r \<longrightarrow> ref' \<notin> S", OF _ ret])
    fix rr r' ref' y'
    assume ih: "\<And>r'' t y''. rr r'' t = Some y'' \<Longrightarrow> r'' = r \<longrightarrow> t \<notin> S"
      and body: "(case ref_files r' ref' of
                    None \<Rightarrow> Some (Inl OSError)
                  | Some content \<Rightarrow>
                      let data = butlast content
                      in if prefix ''ref: '' data then rr r' (drop (length ''ref: '') data)
                         else Some (Inr data)) = Some y'"
    show "r' = r \<longrightarrow> ref' \<notin> S"
    proof (intro impI notI)
      assume r': "r' = r" and mem: "ref' \<in> S"
      with closed obtain t where t: "t \<in> S" "ref_target r ref' = Some t" by blast
      from t(2) body r' have "rr r t = Some y'"
        by (auto simp add: ref_target_def split: option.splits if_splits)
      from ih [OF this] t(1) show False by simp
    qed
  qed
  then show ?thesis by simp
qed

lemma ref_resolve_cycle:
  assumes "\<forall>x \<in> S. \<exists>t \<in> S. ref_target r x = Some t" and "ref \<in> S"
  shows "ref_resolve r ref = None"
proof (cases "ref_resolve r ref")
  case None
  then show ?thesis .
next
  case (Some y)
  from ref_resolve_cycle_aux [OF assms(1) Some] assms(2) show ?thesis by blast
qed


text \<open>
  Claim C4, as the code has it. \<^verbatim>\<open>ref_resolve\<close> follows a symbolic reference to its
  target, and returns the stored value (without its last character) of the first file
  that does not start with \<^verbatim>\<open>ref: \<close>. It has no guard against cycles: from a reference in
  a set of symbolic references that point into the set, it never returns, so no
  failure of any kind is reported.
\<close>

theorem ref_resolve_follows_chain:
  "(ref_target r ref = Some t \<longrightarrow> ref_resolve r ref = ref_resolve r t)
   \<and> (ref_files r ref = Some content \<and> \<not> prefix ''ref: '' (butlast content)
        \<longrightarrow> ref_resolve r ref = Some (Inr (butlast content)))
   \<and> ((\<forall>x \<in> S. \<exists>t \<in> S. ref_target r x = Some t) \<and> ref \<in> S \<longrightarrow> ref_resolve r ref = None)"
  using ref_resolve_symbolic [of r ref t] ref_resolve_direct [of r ref content]
    ref_resolve_cycle [of S r ref]
  by blast

lemma chained_repo_targets:
  "ref_target chained_repo ''HEAD'' = Some ''refs/heads/main''"
  "ref_files chained_repo ''refs/heads/main'' = Some (main_hash @ [NL])"
  "\<not> prefix ''ref: '' main_hash"
  "ref_target chained_repo ''refs/heads/loop'' = Some ''refs/heads/loop''"
  by (simp_all add: ref_target_def chained_repo_def main_hash_def)

theorem ref_resolve_follows_chain_witness:
  "ref_target chained_repo ''HEAD'' = Some ''refs/heads/main''
   \<and> ref_files chained_repo ''refs/heads/main'' = Some (main_hash @ [NL])
   \<and> \<not> prefix ''ref: '' main_hash
   \<and> ref_resolve chained_repo ''HEAD'' = Some (Inr main_hash)
   \<and> ref_target chained_repo ''refs/heads/loop'' = Some ''refs/heads/loop''
   \<and> ref_resolve chained_repo ''refs/heads/loop'' = None"
  using ref_resolve_follows_chain [of chained_repo "''HEAD''" "''refs/heads/main''"]
    ref_resolve_follows_chain [of chained_repo "''refs/heads/main''" _ "main_hash @ [NL]"]
    ref_resolve_follows_chain [of chained_repo "''refs/heads/loop''" _ _ "{''refs/heads/loop''}"]
    chained_repo_targets
  by simp

text \<open>
  Claim C4 as stated fails: with \<^verbatim>\<open>HEAD\<close> pointing at \<^verbatim>\<open>refs/heads/main\<close> and that branch
  pointing back at \<^verbatim>\<open>HEAD\<close>, the resolution of \<^verbatim>\<open>HEAD\<close> has no result, neither a hash nor a
  failure. (CPython ends such a run when its stack is exhausted, with \<^verbatim>\<open>RecursionError\<close>;
  that is the stack overflow a cycle guard is meant to prevent, not the guard's failure.)
\<close>

theorem ref_resolve_cycle_never_returns:
  "ref_resolve cyclic_repo ''HEAD'' = None"
proof (rule ref_resolve_cycle [of "{''HEAD'', ''refs/heads/main''}"])
  show "\<forall>x \<in> {''HEAD'', ''refs/heads/main''}.
          \<exists>t \<in> {''HEAD'', ''refs/heads/main''}. ref_target cyclic_repo x = Some t"
    by (simp add: ref_target_def cyclic_repo_def)
  show "''HEAD'' \<in> {''HEAD'', ''refs/heads/main''}" by simp
qed

section \<open>Properties of the index parser\<close>


lemma find_byte_at_pos:
  "c \<notin> set a \<Longrightarrow> k = int (length pre) \<Longrightarrow>
   find_byte (pre @ a @ c # b) c k = k + int (length a)"
  using find_byte_at [of c a pre b] by simp

lemma slice_mid_pos:
  "k = int (length pre) \<Longrightarrow> slice (pre @ a @ post) k (k + int (length a)) = a"
  using slice_mid [of pre a post] by simp













section \<open>Properties of the object store\<close>

lemma open_wb_result:
  assumes "open_wb r p rest c = Inr r1"
  shows "open_wb r1 p rest c = Inr r1"
    and "open_rb r1 p rest = Inr c"
    and "\<And>p' rest'. (p', rest') \<noteq> (p, rest) \<Longrightarrow> open_rb r1 p' rest' = open_rb r p' rest'"
    and "\<And>p'. set (listdir r p') \<subseteq> set (listdir r1 p')"
    and "\<And>p'. distinct (listdir r p') \<Longrightarrow> distinct (listdir r1 p')"
    and "ref_files r1 = ref_files r"
proof -
  from assms obtain files where b: "objects r p = Some (Bucket files)"
    and nd: "map_of files rest \<noteq> Some Directory"
    and r1: "r1 = r\<lparr>objects := (objects r)(p \<mapsto> Bucket (AList.update rest (File c) files))\<rparr>"
    by (auto simp add: open_wb_def split: option.splits bucket.splits fsnode.splits)
  show "open_wb r1 p rest c = Inr r1"
    by (simp add: open_wb_def r1 update_conv')
  show "open_rb r1 p rest = Inr c"
    by (simp add: open_rb_def r1 update_conv')
  show "open_rb r1 p' rest' = open_rb r p' rest'" if "(p', rest') \<noteq> (p, rest)" for p' rest'
    using that b by (auto simp add: open_rb_def r1 update_conv')
  show "set (listdir r p') \<subseteq> set (listdir r1 p')" for p'
    using b by (auto simp add: listdir_def r1 dom_update)
  show "distinct (listdir r1 p')" if "distinct (listdir r p')" for p'
    using that b by (auto simp add: listdir_def r1 distinct_update)
  show "ref_files r1 = ref_files r" by (simp add: r1)
qed

lemma repo_dir_objects_mkdir:
  assumes "repo_dir_objects r p True = Inr (found, r')"
  shows "repo_dir_objects r' p True = Inr (True, r')"
    and "\<And>p' rest'. open_rb r' p' rest' = open_rb r p' rest'"
    and "\<And>p'. listdir r' p' = listdir r p'"
    and "ref_files r' = ref_files r"
proof -
  from assms have c: "(\<exists>files. objects r p = Some (Bucket files) \<and> r' = r)
      \<or> (objects r p = None \<and> r' = r\<lparr>objects := (objects r)(p \<mapsto> Bucket [])\<rparr>)"
    by (auto simp add: repo_dir_objects_def split: option.splits bucket.splits)
  show "repo_dir_objects r' p True = Inr (True, r')"
    using c by (auto simp add: repo_dir_objects_def)
  show "open_rb r' p' rest' = open_rb r p' rest'" for p' rest'
    using c by (auto simp add: open_rb_def)
  show "listdir r' p' = listdir r p'" for p'
    using c by (auto simp add: listdir_def)
  show "ref_files r' = ref_files r" using c by auto
qed

lemma open_wb_keeps_bucket:
  assumes "open_wb r p rest c = Inr r1"
  shows "repo_dir_objects r1 p True = Inr (True, r1)"
  using assms
  by (auto simp add: open_wb_def repo_dir_objects_def split: option.splits bucket.splits fsnode.splits)

text \<open>
  Claim C9. If writing an object succeeds, with hash \<open>h\<close> and store \<open>r1\<close>, then writing it
  again into \<open>r1\<close> succeeds with the same hash and leaves \<open>r1\<close> as it is; the dry run
  computes the same hash and changes nothing. The entry of \<open>h\<close> holds the compressed,
  prefixed bytes; every other entry reads as before, no name disappears from a bucket and
  no bucket gains a duplicate name.
\<close>

theorem object_write_idempotent:
  assumes "object_write sha1 compress obj True r = Inr (h, r1)"
  shows "object_write sha1 compress obj True r1 = Inr (h, r1)
       \<and> object_write sha1 compress obj False r = Inr (h, r)
       \<and> (\<exists>data. serialize obj = Inr (Some data)
             \<and> h = sha1 (obj_fmt obj @ [SP] @ dec_str (length data) @ [NUL] @ data)
             \<and> open_rb r1 (take 2 h) (drop 2 h)
                 = Inr (compress (obj_fmt obj @ [SP] @ dec_str (length data) @ [NUL] @ data)))
       \<and> (\<forall>p rest. (p, rest) \<noteq> (take 2 h, drop 2 h) \<longrightarrow> open_rb r1 p rest = open_rb r p rest)
       \<and> (\<forall>p. set (listdir r p) \<subseteq> set (listdir r1 p))
       \<and> (\<forall>p. distinct (listdir r p) \<longrightarrow> distinct (listdir r1 p))"
proof -
  from assms obtain data where ser: "serialize obj = Inr (Some data)"
    by (auto simp add: object_write_def split: sum.splits option.splits)
  define result where "result = obj_fmt obj @ [SP] @ dec_str (length data) @ [NUL] @ data"
  from assms ser obtain found r' where h: "h = sha1 result"
    and mk: "repo_dir_objects r (take 2 h) True = Inr (found, r')"
    and wr: "open_wb r' (take 2 h) (drop 2 h) (compress result) = Inr r1"
    by (auto simp add: object_write_def result_def Let_def split: sum.splits)
  note w = open_wb_result [OF wr]
  note m = repo_dir_objects_mkdir [OF mk]
  have again: "object_write sha1 compress obj True r1 = Inr (h, r1)"
    using open_wb_keeps_bucket [OF wr] w(1) h
    by (simp add: object_write_def ser Let_def result_def)
  have dry: "object_write sha1 compress obj False r = Inr (h, r)"
    using h by (simp add: object_write_def ser Let_def result_def)
  have stored: "open_rb r1 (take 2 h) (drop 2 h) = Inr (compress result)" by (rule w(2))
  have others: "\<forall>p rest. (p, rest) \<noteq> (take 2 h, drop 2 h) \<longrightarrow> open_rb r1 p rest = open_rb r p rest"
    using w(3) m(2) by simp
  have keep: "\<forall>p. set (listdir r p) \<subseteq> set (listdir r1 p)"
    using w(4) m(3) by simp
  have dist: "\<forall>p. distinct (listdir r p) \<longrightarrow> distinct (listdir r1 p)"
    using w(5) m(3) by simp
  show ?thesis
    using again dry ser h stored others keep dist unfolding result_def by blast
qed

lemma dec_str_one: "dec_str (Suc 0) = ''1''"
  by (simp add: dec_str.simps hexdigit_def)

lemma write_blob_x:
  "object_write toy_sha1 (\<lambda>b. b) (GitBlob ''x'') True chained_repo = Inr (main_hash, written_repo)"
  by (simp add: object_write_def toy_sha1_def repo_dir_objects_def open_wb_def chained_repo_def
      written_repo_def main_hash_def dec_str_one)

theorem object_write_idempotent_witness:
  "object_write toy_sha1 (\<lambda>b. b) (GitBlob ''x'') True chained_repo = Inr (main_hash, written_repo)
   \<and> object_write toy_sha1 (\<lambda>b. b) (GitBlob ''x'') True written_repo = Inr (main_hash, written_repo)
   \<and> object_write toy_sha1 (\<lambda>b. b) (GitBlob ''x'') False chained_repo = Inr (main_hash, chained_repo)"
  using object_write_idempotent [OF write_blob_x] write_blob_x by simp

section \<open>Properties of reading objects\<close>


lemma is_dec_facts:
  assumes "is_dec c"
  shows "is_digit 10 c" "c \<noteq> CHR ''_''" "c \<noteq> CHR ''-''" "c \<noteq> CHR ''+''" "c \<noteq> NUL"
    "\<not> is_int_space c" "(of_char c :: nat) < 128"
  using assms by (auto simp add: is_dec_def is_digit_def digit_val_def is_int_space_def)

lemma digits_ok_dec: "list_all is_dec s \<Longrightarrow> digits_ok 10 p s = (p \<or> s \<noteq> [])"
proof (induction s arbitrary: p)
  case Nil
  show ?case by simp
next
  case (Cons c s)
  then have "is_dec c" "digits_ok 10 True s" by simp_all
  then show ?case using is_dec_facts(1,2) [of c] by simp
qed

lemma rstrip_dec:
  assumes "list_all is_dec s"
  shows "dropWhile is_int_space (rev s) = rev s"
proof (cases "rev s")
  case Nil
  then show ?thesis by simp
next
  case (Cons c cs)
  then have "c \<in> set s" by (metis list.set_intros(1) set_rev)
  with assms have "is_dec c" by (simp add: list_all_iff)
  then show ?thesis using Cons is_dec_facts(6) [of c] by simp
qed

lemma py_int_sp_dec:
  assumes "list_all is_dec ds" "ds \<noteq> []" "length ds \<le> 4300"
  shows "py_int (SP # ds) 10 = Inr (int (digits_value 10 ds))"
proof -
  obtain c cs where s: "ds = c # cs" using assms(2) by (cases ds) auto
  with assms(1) have c: "is_dec c" by simp
  have lead: "dropWhile is_int_space (SP # ds) = ds"
    using is_dec_facts(6) [OF c] by (simp add: s is_int_space_def)
  have strip: "rev (dropWhile is_int_space (rev (dropWhile is_int_space (SP # ds)))) = ds"
    unfolding lead rstrip_dec [OF assms(1)] by simp
  have hd: "hd ds \<noteq> CHR ''-''" "hd ds \<noteq> CHR ''+''"
    using is_dec_facts(3,4) [OF c] by (simp_all add: s)
  have nou: "filter (\<lambda>c. c \<noteq> CHR ''_'') ds = ds"
    using assms(1) is_dec_facts(2) by (auto simp add: list_all_iff filter_id_conv)
  show ?thesis
    unfolding py_int_def strip Let_def
    using hd assms by (simp add: digits_ok_dec nou int_max_str_digits_def)
qed

lemma kvlm_value_end_not_corrupt: "kvlm_value_end raw e \<noteq> Some (Inl CorruptObject)"
proof
  assume a: "kvlm_value_end raw e = Some (Inl CorruptObject)"
  have "Inl CorruptObject \<noteq> (Inl CorruptObject :: error + int)"
  proof (rule kvlm_value_end.raw_induct [where P = "\<lambda>raw e y. y \<noteq> Inl CorruptObject", OF _ a])
    fix f raw e0 y
    assume ih: "\<And>raw e0 y. f raw e0 = Some y \<Longrightarrow> y \<noteq> Inl CorruptObject"
      and body: "(let end1 = find_byte raw NL (e0 + 1)
                  in case getitem raw (end1 + 1) of
                       Inl e \<Rightarrow> Some (Inl e)
                     | Inr c \<Rightarrow> if c \<noteq> SP then Some (Inr end1) else f raw end1) = Some y"
    show "y \<noteq> Inl CorruptObject"
      using body ih
      by (auto simp add: Let_def getitem_def split: sum.splits if_splits)
  qed
  then show False by simp
qed

lemma kvlm_parse_from_not_corrupt: "kvlm_parse_from raw s d \<noteq> Some (Inl CorruptObject)"
proof
  assume a: "kvlm_parse_from raw s d = Some (Inl CorruptObject)"
  have "Inl CorruptObject \<noteq> (Inl CorruptObject :: error + kvlm)"
  proof (rule kvlm_parse_from.raw_induct [where P = "\<lambda>raw s d y. y \<noteq> Inl CorruptObject", OF _ a])
    fix f raw start dct y
    assume ih: "\<And>raw s d y. f raw s d = Some y \<Longrightarrow> y \<noteq> Inl CorruptObject"
      and body: "(let spc = find_byte raw SP start;
                      nl = find_byte raw NL start
                  in if spc < 0 \<or> nl < spc
                     then (if nl \<noteq> start then Some (Inl AssertionError)
                           else Some (Inr (AList.update [] (Val (slice_from raw (start + 1))) dct)))
                     else
                       (case kvlm_value_end raw start of
                          None \<Rightarrow> None
                        | Some (Inl e) \<Rightarrow> Some (Inl e)
                        | Some (Inr end1) \<Rightarrow>
                            f raw (end1 + 1)
                              (dct_add dct (slice raw start spc)
                                 (replace_nlsp_nl (slice raw (spc + 1) end1))))) = Some y"
    show "y \<noteq> Inl CorruptObject"
      using body ih kvlm_value_end_not_corrupt [of raw start]
      by (auto simp add: Let_def split: sum.splits if_splits option.splits)
  qed
  then show False by simp
qed

lemma tree_parse_loop_not_corrupt: "tree_parse_loop raw p ret \<noteq> Some (Inl CorruptObject)"
proof
  assume a: "tree_parse_loop raw p ret = Some (Inl CorruptObject)"
  have "Inl CorruptObject \<noteq> (Inl CorruptObject :: error + GitTreeLeaf list)"
  proof (rule tree_parse_loop.raw_induct [where P = "\<lambda>raw p ret y. y \<noteq> Inl CorruptObject", OF _ a])
    fix f raw pos ret y
    assume ih: "\<And>raw p ret y. f raw p ret = Some y \<Longrightarrow> y \<noteq> Inl CorruptObject"
      and body: "(if pos < int (length raw)
                  then (case tree_parse_one raw pos of
                          Inl e \<Rightarrow> Some (Inl e)
                        | Inr (pos', data) \<Rightarrow> f raw pos' (ret @ [data]))
                  else Some (Inr ret)) = Some y"
    show "y \<noteq> Inl CorruptObject"
      using body ih
      by (auto simp add: tree_parse_one_def Let_def split: sum.splits if_splits prod.splits)
  qed
  then show False by simp
qed

lemma map_sum_id_Inl: "map_sum id f x = Inl e \<longleftrightarrow> x = Inl e"
  by (cases x) auto

lemma construct_not_corrupt: "construct c data \<noteq> Some (Inl CorruptObject)"
  using kvlm_parse_from_not_corrupt [of data 0 "[]"] tree_parse_loop_not_corrupt [of data 0 "[]"]
  by (cases c) (auto simp add: kvlm_parse_def tree_parse_def map_sum_id_Inl)

lemma slice_from_pos: "k = int (length pre) \<Longrightarrow> slice_from (pre @ post) k = post"
  by (simp add: slice_from_def clamp_index_def)

lemma object_parse_any_tag:
  assumes ty: "SP \<notin> set ty"
    and ds: "list_all is_dec ds" "ds \<noteq> []" "length ds \<le> 4300"
  shows "object_parse (ty @ [SP] @ ds @ [NUL] @ payload) =
     (if int (digits_value 10 ds) \<noteq> int (length payload) then Some (Inl CorruptObject)
      else case pick_constructor ty of
             None \<Rightarrow> Some (Inl (if is_ascii ty then UnsupportedType else UnicodeDecodeError))
           | Some c \<Rightarrow> construct c payload)"
proof -
  let ?raw = "ty @ [SP] @ ds @ [NUL] @ payload"
  have raw1: "?raw = [] @ ty @ SP # (ds @ [NUL] @ payload)" by simp
  have x: "find_byte ?raw SP 0 = int (length ty)"
    unfolding raw1 using find_byte_at_pos [OF ty(1), of 0 "[]"] by simp
  have fmt: "slice ?raw 0 (int (length ty)) = ty"
    by (simp add: slice_def clamp_index_def)
  have nonul: "NUL \<notin> set (SP # ds)"
    using ds(1) is_dec_facts(5) by (auto simp add: list_all_iff)
  have raw2: "?raw = ty @ (SP # ds) @ NUL # payload" by simp
  have y: "find_byte ?raw NUL (int (length ty)) = int (length ty) + int (length (SP # ds))"
    unfolding raw2 by (rule find_byte_at_pos [OF nonul]) simp
  have num: "slice ?raw (int (length ty)) (int (length ty) + int (length (SP # ds))) = SP # ds"
    unfolding raw2 by (rule slice_mid_pos) simp
  have asc: "is_ascii (SP # ds)"
    using ds(1) is_dec_facts(7) by (auto simp add: is_ascii_def list_all_iff)
  have raw3: "?raw = (ty @ SP # ds @ [NUL]) @ payload" by simp
  have rest: "slice_from ?raw (int (length ty) + int (length (SP # ds)) + 1) = payload"
    unfolding raw3 by (rule slice_from_pos) simp
  have len: "int (length ?raw) - (int (length ty) + int (length (SP # ds))) - 1 = int (length payload)"
    by simp
  show ?thesis
    unfolding object_parse_def Let_def x fmt y num rest len
    by (simp add: decode_ascii_def asc py_int_sp_dec [OF ds] split: option.splits)
qed

lemma object_parse_wire:
  assumes ty: "SP \<notin> set ty" "is_ascii ty"
    and ds: "list_all is_dec ds" "ds \<noteq> []" "length ds \<le> 4300"
  shows "object_parse (ty @ [SP] @ ds @ [NUL] @ payload) =
     (if int (digits_value 10 ds) \<noteq> int (length payload) then Some (Inl CorruptObject)
      else case pick_constructor ty of
             None \<Rightarrow> Some (Inl UnsupportedType)
           | Some c \<Rightarrow> construct c payload)"
  using object_parse_any_tag [OF ty(1) ds, of payload] ty(2) by simp

text \<open>
  Let the stored file decompress to \<^verbatim>\<open><type> SP <digits> NUL <payload>\<close>, with an ASCII
  type tag that holds no space and a declared length of at most 4300 decimal digits
  (CPython refuses to convert longer ones). Then \<^verbatim>\<open>object_read\<close> fails with the bad-length
  error exactly when the declared length differs from the number of payload bytes;
  otherwise it fails with the unknown-type error when the tag is none of the four, and
  otherwise it is the constructor of that tag applied to the payload.
\<close>

lemma object_read_ascii_tag:
  assumes "objects r (take 2 h) = Some (Bucket files)"
    and "map_of files (drop 2 h) = Some (File z)"
    and "decompress z = Some (ty @ [SP] @ ds @ [NUL] @ payload)"
    and "SP \<notin> set ty" and "is_ascii ty"
    and "list_all is_dec ds" and "ds \<noteq> []" and "length ds \<le> 4300"
  shows "(object_read decompress r h = Some (Inl CorruptObject)
            \<longleftrightarrow> digits_value 10 ds \<noteq> length payload)
       \<and> (digits_value 10 ds = length payload \<longrightarrow>
            object_read decompress r h =
              (case pick_constructor ty of
                 None \<Rightarrow> Some (Inl UnsupportedType)
               | Some c \<Rightarrow> construct c payload))"
proof -
  have rd: "object_read decompress r h = object_parse (ty @ [SP] @ ds @ [NUL] @ payload)"
    using assms(1-3) by (simp add: object_read_def repo_dir_objects_def open_rb_def)
  note wire = object_parse_wire [OF assms(4-8), of payload]
  show ?thesis
    unfolding rd wire using construct_not_corrupt [of _ payload]
    by (auto split: option.splits)
qed

lemma object_read_stored:
  assumes "repo_dir_objects r (take 2 h) False = Inr (True, r)"
    and "open_rb r (take 2 h) (drop 2 h) = Inr (ty @ [SP] @ ds @ [NUL] @ payload)"
    and "SP \<notin> set ty" and "is_ascii ty"
    and "list_all is_dec ds" and "ds \<noteq> []" and "length ds \<le> 4300"
    and "digits_value 10 ds = length payload"
    and "pick_constructor ty = Some c"
  shows "object_read Some r h = construct c payload"
  using object_parse_wire [OF assms(3-7), of payload] assms(1,2,8,9)
  by (simp add: object_read_def)

lemmas store_eval =
  example_store_def repo_dir_objects_def open_rb_def blob_hash_def tag_hash_def commit_hash_def
  tree_hash_def is_ascii_def is_dec_def digits_value_def digit_val_def pick_constructor_def

lemma read_blob: "object_read Some example_store blob_hash = Some (Inr (GitBlob ''x''))"
  by (subst object_read_stored [where ty = "''blob''" and ds = "''1''" and payload = blob_payload and c = CGitBlob])
     (simp_all add: store_eval blob_payload_def)

lemma parse_tag_payload:
  "kvlm_parse tag_payload = Some (Inr [(''object'', Val blob_hash), (''type'', Val ''blob''), ([], Val ''m'')])"
  by (simp add: kvlm_parse_def tag_payload_def blob_hash_def kvlm_parse_from.simps
      kvlm_value_end.simps eval_prims)

lemma parse_commit_payload:
  "kvlm_parse commit_payload = Some (Inr [(''tree'', Val tree_hash), ([], Val ''m'')])"
  by (simp add: kvlm_parse_def commit_payload_def tree_hash_def kvlm_parse_from.simps
      kvlm_value_end.simps eval_prims)

lemma read_tag:
  "object_read Some example_store tag_hash =
     Some (Inr (GitTag [(''object'', Val blob_hash), (''type'', Val ''blob''), ([], Val ''m'')]))"
  by (subst object_read_stored [where ty = "''tag''" and ds = "''60''" and payload = tag_payload and c = CGitTag])
     (simp_all add: store_eval parse_tag_payload, simp add: tag_payload_def)

lemma read_commit:
  "object_read Some example_store commit_hash =
     Some (Inr (GitCommit [(''tree'', Val tree_hash), ([], Val ''m'')]))"
  by (subst object_read_stored [where ty = "''commit''" and ds = "''48''" and payload = commit_payload and c = CGitCommit])
     (simp_all add: store_eval parse_commit_payload, simp add: commit_payload_def)

lemma read_tree: "object_read Some example_store tree_hash = Some (Inr (GitTree []))"
  by (subst object_read_stored [where ty = "''tree''" and ds = "''0''" and payload = "[]" and c = CGitTree])
     (simp_all add: store_eval tree_parse_def tree_parse_loop.simps)

lemma object_parse_bad_tag:
  "object_parse bad_tag_raw = Some (Inl UnicodeDecodeError)"
  unfolding bad_tag_raw_def
  by (subst object_parse_any_tag)
     (simp_all add: bad_tag_def is_dec_def digits_value_def digit_val_def pick_constructor_def is_ascii_def)

text \<open>
  Claim C7. The length check and the dispatch on the four known tags are as stated (lemma
  \<open>object_read_ascii_tag\<close>), but an unknown tag does not always give the unknown-type
  failure: \<^verbatim>\<open>object_read\<close> builds that failure's message with \<^verbatim>\<open>fmt.decode('ascii')\<close>, which
  raises on a tag with a byte outside ASCII. For a stored object whose tag is \<^verbatim>\<open>bl\<close>, the byte \<^verbatim>\<open>0xff\<close>, \<^verbatim>\<open>b\<close>
  (declared length right, tag none of the four) the result is \<^verbatim>\<open>UnicodeDecodeError\<close>; the dispatch of
  \<^verbatim>\<open>object_hash\<close>, which formats the tag without decoding it, gives the unknown-type failure
  for the same tag.
\<close>

theorem object_read_unknown_tag_decode_error:
  "object_read Some bad_tag_store blob_hash = Some (Inl UnicodeDecodeError)
   \<and> pick_constructor bad_tag = None
   \<and> object_decode bad_tag ''x'' = Some (Inl UnsupportedType)"
  by (simp add: object_read_def repo_dir_objects_def open_rb_def bad_tag_store_def blob_hash_def
      object_parse_bad_tag object_decode_def)
     (simp add: pick_constructor_def bad_tag_def)

section \<open>Properties of name resolution\<close>

text \<open>
  Claim C5. Whatever candidates \<^verbatim>\<open>object_resolve\<close> returns for a name, \<^verbatim>\<open>object_find\<close> fails
  with the not-found error when there is none (\<^verbatim>\<open>None\<close> or the empty list), fails with the
  ambiguity error that lists them when there are several, and returns the only one when
  there is exactly one and no type is requested.
\<close>

theorem object_find_candidates:
  assumes "object_resolve r nm = Some (Inr c)"
  shows "(c = None \<or> c = Some [] \<longrightarrow>
            object_find dz r nm fmt follow = Some (Inl (NameNotFound nm)))
       \<and> (\<forall>cs. c = Some cs \<and> 1 < length cs \<longrightarrow>
            object_find dz r nm fmt follow = Some (Inl (AmbiguousName nm cs)))
       \<and> (\<forall>h. c = Some [h] \<longrightarrow> object_find dz r nm None follow = Some (Inr (Some h)))"
proof (intro conjI allI impI)
  assume "c = None \<or> c = Some []"
  then show "object_find dz r nm fmt follow = Some (Inl (NameNotFound nm))"
    using assms by (auto simp add: object_find_def)
next
  fix cs
  assume "c = Some cs \<and> 1 < length cs"
  then show "object_find dz r nm fmt follow = Some (Inl (AmbiguousName nm cs))"
    using assms by (auto simp add: object_find_def)
next
  fix h
  assume "c = Some [h]"
  then show "object_find dz r nm None follow = Some (Inr (Some h))"
    using assms by (simp add: object_find_def)
qed

lemmas resolve_eval =
  object_resolve_def hashRE_match_def is_hex_def is_str_space_def lower_def lower_char_def
  repo_dir_objects_def listdir_def example_store_def blob_hash_def tag_hash_def commit_hash_def
  tree_hash_def

lemma resolve_abc1: "object_resolve example_store ''abc1'' = Some (Inr (Some [blob_hash, tag_hash]))"
  by (simp add: resolve_eval)

lemma resolve_abc123: "object_resolve example_store ''abc123'' = Some (Inr (Some [blob_hash]))"
  by (simp add: resolve_eval)

lemma resolve_abd0: "object_resolve example_store ''abd0'' = Some (Inr (Some []))"
  by (simp add: resolve_eval)

lemma resolve_full:
  "object_resolve example_store blob_hash = Some (Inr (Some [blob_hash]))"
  "object_resolve example_store tag_hash = Some (Inr (Some [tag_hash]))"
  "object_resolve example_store commit_hash = Some (Inr (Some [commit_hash]))"
  by (simp_all add: resolve_eval)

theorem object_find_candidates_witness:
  "object_find Some example_store ''abc1'' None True
      = Some (Inl (AmbiguousName ''abc1'' [blob_hash, tag_hash]))
   \<and> object_find Some example_store ''abc123'' None True = Some (Inr (Some blob_hash))
   \<and> object_find Some example_store ''abd0'' None True = Some (Inl (NameNotFound ''abd0''))"
  using object_find_candidates [OF resolve_abc1, of Some None True]
    object_find_candidates [OF resolve_abc123, of Some None True]
    object_find_candidates [OF resolve_abd0, of Some None True]
  by simp

text \<open>
  Claim C6, as the code has it. Let the name resolve to one object whose type differs
  from the requested one. A tag is followed to its \<^verbatim>\<open>object\<close> field, a commit is followed
  to its \<^verbatim>\<open>tree\<close> field when a tree is requested, and in every other case the result is
  \<^verbatim>\<open>None\<close>, returned without any failure.
\<close>

theorem object_find_follows:
  assumes "object_resolve r nm = Some (Inr (Some [h]))" and "f \<noteq> []"
    and "object_read dz r h = Some (Inr obj)" and "obj_fmt obj \<noteq> f"
  shows "(obj_fmt obj = ''tag'' \<longrightarrow>
            object_find dz r nm (Some f) True =
              (case kvlm_field obj ''object'' of
                 Inl e \<Rightarrow> Some (Inl e)
               | Inr t \<Rightarrow> object_find_loop dz r t f True))
       \<and> (obj_fmt obj = ''commit'' \<and> f = ''tree'' \<longrightarrow>
            object_find dz r nm (Some f) True =
              (case kvlm_field obj ''tree'' of
                 Inl e \<Rightarrow> Some (Inl e)
               | Inr t \<Rightarrow> object_find_loop dz r t f True))
       \<and> (obj_fmt obj \<noteq> ''tag'' \<and> \<not> (obj_fmt obj = ''commit'' \<and> f = ''tree'') \<longrightarrow>
            object_find dz r nm (Some f) True = Some (Inr None))"
proof -
  have start: "object_find dz r nm (Some f) True = object_find_loop dz r h f True"
    using assms(1,2) by (simp add: object_find_def)
  have step: "object_find_loop dz r h f True =
      (if obj_fmt obj = ''tag''
       then (case kvlm_field obj ''object'' of
               Inl e \<Rightarrow> Some (Inl e)
             | Inr t \<Rightarrow> object_find_loop dz r t f True)
       else if obj_fmt obj = ''commit'' \<and> f = ''tree''
       then (case kvlm_field obj ''tree'' of
               Inl e \<Rightarrow> Some (Inl e)
             | Inr t \<Rightarrow> object_find_loop dz r t f True)
       else Some (Inr None))"
    by (subst object_find_loop.simps) (simp add: assms(3,4))
  show ?thesis
    unfolding start step by simp
qed

lemma loop_found:
  "object_read dz r h = Some (Inr obj) \<Longrightarrow> obj_fmt obj = f \<Longrightarrow>
   object_find_loop dz r h f follow = Some (Inr (Some h))"
  by (subst object_find_loop.simps) simp

theorem object_find_follows_witness:
  "object_find Some example_store tag_hash (Some ''blob'') True = Some (Inr (Some blob_hash))
   \<and> object_find Some example_store commit_hash (Some ''tree'') True = Some (Inr (Some tree_hash))
   \<and> object_find Some example_store blob_hash (Some ''tree'') True = Some (Inr None)"
  using object_find_follows [OF resolve_full(2) _ read_tag, of "''blob''"]
    object_find_follows [OF resolve_full(3) _ read_commit, of "''tree''"]
    object_find_follows [OF resolve_full(1) _ read_blob, of "''tree''"]
    loop_found [OF read_blob, of "''blob''" True] loop_found [OF read_tree, of "''tree''" True]
  by (simp add: kvlm_field_def kvlm_of_def decode_ascii_def is_ascii_def blob_hash_def tree_hash_def)

text \<open>
  Claim C6 as stated fails: asking for a blob under the name of a commit is a mismatch
  with no rule to follow, and the result is \<^verbatim>\<open>None\<close>, not a failure.
\<close>

theorem object_find_returns_None_on_mismatch:
  "object_find Some example_store commit_hash (Some ''blob'') True = Some (Inr None)"
  using read_commit resolve_full(3)
  by (simp add: object_find_def object_find_loop.simps)

lemma object_read_ascii_tag_examples:
  "object_read Some example_store blob_hash = Some (Inr (GitBlob ''x''))
   \<and> object_read (\<lambda>z. Some (''blob'' @ [SP] @ ''2'' @ [NUL] @ ''x'')) example_store blob_hash
        = Some (Inl CorruptObject)
   \<and> object_read (\<lambda>z. Some (''blub'' @ [SP] @ ''1'' @ [NUL] @ ''x'')) example_store blob_hash
        = Some (Inl UnsupportedType)"
  using object_read_ascii_tag [of example_store blob_hash _ _ "Some" "''blob''" "''1''" "''x''"]
    object_read_ascii_tag [of example_store blob_hash _ _ "\<lambda>z. Some (''blob'' @ [SP] @ ''2'' @ [NUL] @ ''x'')" "''blob''" "''2''" "''x''"]
    object_read_ascii_tag [of example_store blob_hash _ _ "\<lambda>z. Some (''blub'' @ [SP] @ ''1'' @ [NUL] @ ''x'')" "''blub''" "''1''" "''x''"]
  by (simp add: store_eval blob_payload_def)

end
